theory Spec2Isabelle
  imports Main "HOL-Library.Word" "HOL-Library.Sublist"
begin

section \<open>Strings\<close>

text \<open>
  A JavaScript string is a sequence of UTF-16 code units. Literals of the source are
  ASCII and are written through \<open>js\<close>.
\<close>

type_synonym cu = "16 word"

type_synonym jsstring = "cu list"

definition js :: "string \<Rightarrow> jsstring" where
  "js s = map of_char s"

text \<open>
  The character classes of the regular expression: \<open>.\<close> (no \<open>s\<close> flag) is every code
  unit but the four line terminators, \<open>\d\<close> is \<open>0\<close> to \<open>9\<close>, \<open>[A-Z]\<close> is \<open>A\<close> to \<open>Z\<close>.
\<close>

definition is_dot :: "cu \<Rightarrow> bool" where
  "is_dot c = (c \<noteq> 0x0A \<and> c \<noteq> 0x0D \<and> c \<noteq> 0x2028 \<and> c \<noteq> 0x2029)"

definition is_digit :: "cu \<Rightarrow> bool" where
  "is_digit c = (0x30 \<le> c \<and> c \<le> 0x39)"

definition is_upper :: "cu \<Rightarrow> bool" where
  "is_upper c = (0x41 \<le> c \<and> c \<le> 0x5A)"

text \<open>
  \<open>String.prototype.trim\<close> strips white space and line terminators: TAB, LF, VT, FF, CR,
  SP, NBSP, the Unicode space separators and ZWNBSP.
\<close>

definition is_js_space :: "cu \<Rightarrow> bool" where
  "is_js_space c =
     (c = 0x09 \<or> c = 0x0A \<or> c = 0x0B \<or> c = 0x0C \<or> c = 0x0D \<or> c = 0x20 \<or> c = 0xA0 \<or>
      c = 0x1680 \<or> (0x2000 \<le> c \<and> c \<le> 0x200A) \<or> c = 0x2028 \<or> c = 0x2029 \<or>
      c = 0x202F \<or> c = 0x205F \<or> c = 0x3000 \<or> c = 0xFEFF)"

definition trim :: "jsstring \<Rightarrow> jsstring" where
  "trim s = rev (dropWhile is_js_space (rev (dropWhile is_js_space s)))"

text \<open>\<open>s.split('\n')\<close>: the pieces between line feeds; never an empty array.\<close>

fun split_acc :: "jsstring \<Rightarrow> jsstring \<Rightarrow> jsstring list" where
  "split_acc cur [] = [cur]"
| "split_acc cur (c # cs) =
     (if c = 0x0A then cur # split_acc [] cs else split_acc (cur @ [c]) cs)"

definition split_nl :: "jsstring \<Rightarrow> jsstring list" where
  "split_nl s = split_acc [] s"

section \<open>The backtracking matcher\<close>

text \<open>
  The pieces of a regular expression, each taking the continuation that matches the
  rest of the pattern. A greedy repetition first tries to take one more code unit and
  falls back to the continuation when that fails, as the engine's backtracking does.
\<close>

fun re_star :: "(cu \<Rightarrow> bool) \<Rightarrow> (jsstring \<Rightarrow> jsstring \<Rightarrow> 'r option) \<Rightarrow> jsstring \<Rightarrow> jsstring \<Rightarrow> 'r option" where
  "re_star P k acc [] = k acc []"
| "re_star P k acc (c # cs) =
     (if P c then
        (case re_star P k (acc @ [c]) cs of
           Some r \<Rightarrow> Some r
         | None \<Rightarrow> k acc (c # cs))
      else k acc (c # cs))"

definition re_plus :: "(cu \<Rightarrow> bool) \<Rightarrow> (jsstring \<Rightarrow> jsstring \<Rightarrow> 'r option) \<Rightarrow> jsstring \<Rightarrow> 'r option" where
  "re_plus P k s =
     (case s of [] \<Rightarrow> None | c # cs \<Rightarrow> if P c then re_star P k [c] cs else None)"

fun re_lit :: "jsstring \<Rightarrow> (jsstring \<Rightarrow> 'r option) \<Rightarrow> jsstring \<Rightarrow> 'r option" where
  "re_lit [] k s = k s"
| "re_lit (x # xs) k [] = None"
| "re_lit (x # xs) k (c # cs) = (if c = x then re_lit xs k cs else None)"

fun re_alt :: "jsstring list \<Rightarrow> (jsstring \<Rightarrow> jsstring \<Rightarrow> 'r option) \<Rightarrow> jsstring \<Rightarrow> 'r option" where
  "re_alt [] k s = None"
| "re_alt (a # as) k s =
     (case re_lit a (k a) s of Some r \<Rightarrow> Some r | None \<Rightarrow> re_alt as k s)"

definition re_class :: "(cu \<Rightarrow> bool) \<Rightarrow> (cu \<Rightarrow> jsstring \<Rightarrow> 'r option) \<Rightarrow> jsstring \<Rightarrow> 'r option" where
  "re_class P k s = (case s of [] \<Rightarrow> None | c # cs \<Rightarrow> if P c then k c cs else None)"

definition re_eol :: "'r \<Rightarrow> jsstring \<Rightarrow> 'r option" where
  "re_eol r s = (if s = [] then Some r else None)"

section \<open>Parsing\<close>

text \<open>The capture groups of \<open>ISSUE_RE\<close>: (path)(line)(col)(severity)(code)(message).\<close>

record issue_match =
  m_path :: jsstring
  m_lineStr :: jsstring
  m_colStr :: jsstring
  m_severity :: jsstring
  m_code :: jsstring
  m_message :: jsstring

text \<open>
  \<^verbatim>\<open>/^(.*):(\d+):(\d+): (error|warning|info): ([A-Z]\d+) (.+)$/\<close> applied by
  \<open>line.match\<close>: anchored at both ends, \<open>None\<close> when \<open>match\<close> returns \<open>null\<close>.
\<close>

definition ISSUE_RE :: "jsstring \<Rightarrow> issue_match option" where
  "ISSUE_RE line =
     re_star is_dot (\<lambda>path.
       re_lit (js '':'') (
       re_plus is_digit (\<lambda>lineStr.
       re_lit (js '':'') (
       re_plus is_digit (\<lambda>colStr.
       re_lit (js '': '') (
       re_alt [js ''error'', js ''warning'', js ''info''] (\<lambda>sev.
       re_lit (js '': '') (
       re_class is_upper (\<lambda>u.
       re_plus is_digit (\<lambda>ds.
       re_lit (js '' '') (
       re_plus is_dot (\<lambda>msg.
       re_eol \<lparr>m_path = path, m_lineStr = lineStr, m_colStr = colStr,
               m_severity = sev, m_code = u # ds, m_message = msg\<rparr>))))))))))))
     [] line"

datatype DiagnosticSeverity = Error | Warning | Information | Hint

definition toVSCodeSeverity :: "jsstring \<Rightarrow> DiagnosticSeverity" where
  "toVSCodeSeverity severity =
     (if severity = js ''error'' then Error
      else if severity = js ''warning'' then Warning
      else Information)"

text \<open>
  \<open>parseInt(s, 10)\<close> on a capture of \<open>\d+\<close>: the decimal value of the digits. Numbers
  are modelled as unbounded integers, which is what the source computes for every
  digit string whose value a double holds exactly (below \<open>2^53\<close>).
\<close>

definition digit_val :: "cu \<Rightarrow> int" where
  "digit_val c = uint c - 48"

definition parseInt10 :: "jsstring \<Rightarrow> int" where
  "parseInt10 s = foldl (\<lambda>n c. 10 * n + digit_val c) 0 (takeWhile is_digit s)"

text \<open>
  A range holds the four numbers handed to the host's \<open>Range\<close> constructor, a
  diagnostic the three arguments of the host's \<open>Diagnostic\<close> constructor and the two
  fields assigned afterwards.
\<close>

record Range =
  startLine :: int
  startCharacter :: int
  endLine :: int
  endCharacter :: int

record Diagnostic =
  diag_range :: Range
  diag_message :: jsstring
  diag_severity :: DiagnosticSeverity
  diag_source :: jsstring
  diag_code :: jsstring

text \<open>The body of the loop of \<open>parseOutput\<close> for a line that matched.\<close>

definition mk_diagnostic :: "issue_match \<Rightarrow> Diagnostic" where
  "mk_diagnostic m =
     (let lineNum = max 0 (parseInt10 (m_lineStr m) - 1);
          colNum = max 0 (parseInt10 (m_colStr m))
      in \<lparr>diag_range = \<lparr>startLine = lineNum, startCharacter = colNum,
                         endLine = lineNum, endCharacter = 9999\<rparr>,
          diag_message = m_code m @ js '': '' @ m_message m,
          diag_severity = toVSCodeSeverity (m_severity m),
          diag_source = js ''tangolint'',
          diag_code = m_code m\<rparr>)"

text \<open>The loop over the lines, with the array \<open>diagnostics\<close> it pushes to.\<close>

fun parse_lines :: "jsstring list \<Rightarrow> Diagnostic list \<Rightarrow> Diagnostic list" where
  "parse_lines [] diagnostics = diagnostics"
| "parse_lines (line # rest) diagnostics =
     (case ISSUE_RE line of
        None \<Rightarrow> parse_lines rest diagnostics
      | Some m \<Rightarrow> parse_lines rest (diagnostics @ [mk_diagnostic m]))"

definition parseOutput :: "jsstring \<Rightarrow> Diagnostic list" where
  "parseOutput stdout = parse_lines (split_nl stdout) []"

section \<open>The line grammar\<close>

text \<open>
  The grammar \<open><path>:<line>:<col>: <severity>: <code> <message>\<close> read off the
  pattern: what the six captures look like, and the line they spell.
\<close>

definition digits1 :: "jsstring \<Rightarrow> bool" where
  "digits1 s = (s \<noteq> [] \<and> list_all is_digit s)"

definition code_pattern :: "jsstring \<Rightarrow> bool" where
  "code_pattern s =
     (case s of [] \<Rightarrow> False | u # ds \<Rightarrow> is_upper u \<and> digits1 ds)"

definition render :: "issue_match \<Rightarrow> jsstring" where
  "render m =
     m_path m @ js '':'' @ m_lineStr m @ js '':'' @ m_colStr m @ js '': '' @
     m_severity m @ js '': '' @ m_code m @ js '' '' @ m_message m"

definition issue_fields :: "issue_match \<Rightarrow> bool" where
  "issue_fields m =
     (list_all is_dot (m_path m) \<and> digits1 (m_lineStr m) \<and> digits1 (m_colStr m) \<and>
      (m_severity m = js ''error'' \<or> m_severity m = js ''warning'' \<or> m_severity m = js ''info'') \<and>
      code_pattern (m_code m) \<and> m_message m \<noteq> [] \<and> list_all is_dot (m_message m))"

text \<open>A line matches the grammar when it is spelled by well-formed fields.\<close>

definition matches_grammar :: "jsstring \<Rightarrow> bool" where
  "matches_grammar l = (\<exists>m. issue_fields m \<and> l = render m)"

section \<open>Configuration and environment\<close>

text \<open>
  The settings of the \<open>tangolint\<close> section, each with the type it is declared with;
  \<open>None\<close> is a setting the user has not set, for which \<open>cfg.get(name, default)\<close>
  returns the default. The per-rule toggles are keyed by their setting name
  \<open>rules.<code>\<close>.
\<close>

record config =
  cfg_linterPath :: "jsstring option"
  cfg_pythonPath :: "jsstring option"
  cfg_lintOnOpen :: "bool option"
  cfg_lintOnSave :: "bool option"
  cfg_lintOnChange :: "bool option"
  cfg_rules :: "jsstring \<rightharpoonup> bool"

definition cfg_get :: "'a option \<Rightarrow> 'a \<Rightarrow> 'a" where
  "cfg_get v dflt = (case v of None \<Rightarrow> dflt | Some x \<Rightarrow> x)"

record Uri =
  scheme :: jsstring
  fsPath :: jsstring

record TextDocument =
  uri :: Uri
  languageId :: jsstring

text \<open>
  What the functions read from outside the module: the configuration, the file system
  (\<open>fs.existsSync\<close>), the workspace folder of a document (the \<open>fsPath\<close> of
  \<open>getWorkspaceFolder(document.uri)\<close>, if there is one), Node's \<open>path.join\<close> and
  \<open>path.dirname\<close>, and the command the Python extension reports when it is active and
  its accessor answers.
\<close>

record env =
  configuration :: config
  existsSync :: "jsstring \<Rightarrow> bool"
  getWorkspaceFolder :: "Uri \<Rightarrow> jsstring option"
  path_join :: "jsstring \<Rightarrow> jsstring \<Rightarrow> jsstring"
  path_dirname :: "jsstring \<Rightarrow> jsstring"
  pythonExecCommand :: "jsstring list option"

section \<open>Path resolution\<close>

definition findLinterPath :: "env \<Rightarrow> jsstring option \<Rightarrow> TextDocument \<Rightarrow> jsstring option" where
  "findLinterPath e deployedLinterPath document =
     (let configured = trim (cfg_get (cfg_linterPath (configuration e)) [])
      in if configured \<noteq> [] \<and> existsSync e configured then Some configured
         else if (case deployedLinterPath of
                    None \<Rightarrow> False
                  | Some p \<Rightarrow> p \<noteq> [] \<and> existsSync e p) then deployedLinterPath
         else (case getWorkspaceFolder e (uri document) of
                 None \<Rightarrow> None
               | Some wsFolder \<Rightarrow>
                   (let candidate = path_join e wsFolder (js ''tangolint.py'')
                    in if existsSync e candidate then Some candidate else None)))"

definition getPythonPath :: "env \<Rightarrow> jsstring" where
  "getPythonPath e =
     (let configured = trim (cfg_get (cfg_pythonPath (configuration e)) [])
      in if configured \<noteq> [] then configured
         else (case pythonExecCommand e of
                 Some (exec0 # _) \<Rightarrow> exec0
               | _ \<Rightarrow> js ''python3''))"

section \<open>Disabled rules\<close>

definition ALL_RULE_CODES :: "jsstring list" where
  "ALL_RULE_CODES =
     [js ''T001'', js ''T010'', js ''T011'', js ''T020'', js ''T021'', js ''T022'',
      js ''T023'', js ''T024'', js ''T025'',
      js ''T030'', js ''T031'', js ''T032'',
      js ''G001'', js ''G002'', js ''G003'', js ''G004'', js ''G005'', js ''G006'',
      js ''G007'', js ''G008'']"

definition getDisabledRules :: "env \<Rightarrow> jsstring list" where
  "getDisabledRules e =
     filter (\<lambda>code. cfg_get (cfg_rules (configuration e) (js ''rules.'' @ code)) True = False)
       ALL_RULE_CODES"

text \<open>\<open>getDisabledRules().flatMap(code => ['--disable', code])\<close>, as \<open>lintDocument\<close> builds it.\<close>

definition disabledArgs :: "env \<Rightarrow> jsstring list" where
  "disabledArgs e = concat (map (\<lambda>code. [js ''--disable'', code]) (getDisabledRules e))"

text \<open>
  The rule toggles in the words of the specification: a rule is disabled when the map
  holds \<open>false\<close> for it, and enabled when it holds \<open>true\<close> or nothing.
\<close>

definition rule_disabled :: "config \<Rightarrow> jsstring \<Rightarrow> bool" where
  "rule_disabled cfg code = (cfg_rules cfg (js ''rules.'' @ code) = Some False)"

text \<open>
  The resolution order in the words of the specification: the configured path, the
  deployed copy, the file \<open>tangolint.py\<close> in the root of the document's workspace
  folder. The first one that exists wins.
\<close>

definition entry_point_candidates :: "env \<Rightarrow> jsstring option \<Rightarrow> TextDocument \<Rightarrow> jsstring list" where
  "entry_point_candidates e deployed document =
     (let configured = trim (cfg_get (cfg_linterPath (configuration e)) [])
      in (if configured \<noteq> [] then [configured] else []) @
         (case deployed of None \<Rightarrow> [] | Some p \<Rightarrow> if p \<noteq> [] then [p] else []) @
         (case getWorkspaceFolder e (uri document) of
            None \<Rightarrow> []
          | Some wsFolder \<Rightarrow> [path_join e wsFolder (js ''tangolint.py'')]))"

section \<open>Module state and the host\<close>

record StatusBarItem =
  sb_text :: jsstring
  sb_tooltip :: jsstring
  sb_visible :: bool

text \<open>A call of \<open>cp.execFile\<close> whose callback has not run yet.\<close>

record ExecCall =
  ex_file :: jsstring
  ex_args :: "jsstring list"
  ex_cwd :: jsstring
  ex_document :: TextDocument

text \<open>
  A pending \<open>setTimeout\<close>: its handle, the time it is due, and the variables \<open>key\<close>
  and \<open>doc\<close> its callback closes over. A debounce key is \<open>doc.uri.toString()\<close>, which
  names the URI; the model keys the table by the URI itself.
\<close>

record Timer =
  tm_id :: nat
  tm_deadline :: nat
  tm_key :: Uri
  tm_doc :: TextDocument

text \<open>
  The module's variables (\<open>deployedLinterPath\<close>, \<open>diagnosticCollection\<close>,
  \<open>statusBarItem\<close>, \<open>debounceTimers\<close>) and the host's side of them: the pending timers
  in the order they were set, the next timer handle, the clock in milliseconds, the
  timers whose callback has run, the subprocesses in flight, the lines written by
  \<open>console.error\<close> and the messages shown by \<open>showErrorMessage\<close>.
\<close>

record ext_state =
  deployedLinterPath :: "jsstring option"
  diagnosticCollection :: "Uri \<rightharpoonup> Diagnostic list"
  statusBarItem :: StatusBarItem
  debounceTimers :: "Uri \<rightharpoonup> nat"
  timers :: "Timer list"
  next_timer :: nat
  clock :: nat
  fired :: "Timer list"
  running :: "ExecCall list"
  console :: "jsstring list"
  errorMessages :: "jsstring list"

section \<open>Status bar helpers\<close>

text \<open>A count inside a template literal: its decimal digits.\<close>

function show_nat :: "nat \<Rightarrow> jsstring" where
  "show_nat n =
     (if n < 10 then [of_nat (48 + n)]
      else show_nat (n div 10) @ [of_nat (48 + n mod 10)])"
  by pat_completeness auto

termination
  by (relation "measure id") auto

definition statusRunning :: "ext_state \<Rightarrow> ext_state" where
  "statusRunning st =
     st\<lparr>statusBarItem := (statusBarItem st)\<lparr>
          sb_text := js ''$(sync~spin) TangoLint'',
          sb_tooltip := js ''TangoLint: running'' @ [0x2026],
          sb_visible := True\<rparr>\<rparr>"

definition statusDone :: "Diagnostic list \<Rightarrow> ext_state \<Rightarrow> ext_state" where
  "statusDone diagnostics st =
     (let errors = length (filter (\<lambda>d. diag_severity d = Error) diagnostics);
          warnings = length (filter (\<lambda>d. diag_severity d = Warning) diagnostics)
      in if errors > 0 then
           st\<lparr>statusBarItem := (statusBarItem st)\<lparr>
                sb_text := js ''$(error) TangoLint: '' @ show_nat errors @ js ''E '' @
                             show_nat warnings @ js ''W'',
                sb_tooltip := js ''TangoLint: '' @ show_nat errors @ js '' error(s), '' @
                             show_nat warnings @ js '' warning(s)''\<rparr>\<rparr>
         else if warnings > 0 then
           st\<lparr>statusBarItem := (statusBarItem st)\<lparr>
                sb_text := js ''$(warning) TangoLint: '' @ show_nat warnings @ js ''W'',
                sb_tooltip := js ''TangoLint: '' @ show_nat warnings @ js '' warning(s)''\<rparr>\<rparr>
         else
           st\<lparr>statusBarItem := (statusBarItem st)\<lparr>
                sb_text := js ''$(check) TangoLint'',
                sb_tooltip := js ''TangoLint: no issues''\<rparr>\<rparr>)"

definition statusError :: "jsstring \<Rightarrow> ext_state \<Rightarrow> ext_state" where
  "statusError message st =
     st\<lparr>statusBarItem := (statusBarItem st)\<lparr>
          sb_text := js ''$(alert) TangoLint'',
          sb_tooltip := js ''TangoLint: '' @ message,
          sb_visible := True\<rparr>\<rparr>"

section \<open>The lint runner\<close>

text \<open>
  \<open>lintDocument\<close> up to the call of \<open>cp.execFile\<close>, which only records the subprocess;
  its callback is \<open>execCallback\<close>, run when the subprocess has completed with the given
  output and error text.
\<close>

definition lintDocument :: "env \<Rightarrow> TextDocument \<Rightarrow> ext_state \<Rightarrow> ext_state" where
  "lintDocument e document st =
     (if scheme (uri document) \<noteq> js ''file'' \<or> languageId document \<noteq> js ''python'' then st
      else (case findLinterPath e (deployedLinterPath st) document of
              None \<Rightarrow> st\<lparr>diagnosticCollection := (diagnosticCollection st)(uri document := None)\<rparr>
            | Some linterPath \<Rightarrow>
                (let pythonPath = getPythonPath e;
                     filePath = fsPath (uri document);
                     st1 = statusRunning st
                 in st1\<lparr>running := running st1 @
                      [\<lparr>ex_file = pythonPath,
                        ex_args = [linterPath, js ''--no-color''] @ disabledArgs e @ [filePath],
                        ex_cwd = path_dirname e linterPath,
                        ex_document = document\<rparr>]\<rparr>)))"

definition first_line :: "jsstring \<Rightarrow> jsstring" where
  "first_line s = (case split_nl s of [] \<Rightarrow> [] | l # _ \<Rightarrow> l)"

definition execCallback :: "TextDocument \<Rightarrow> jsstring \<Rightarrow> jsstring \<Rightarrow> ext_state \<Rightarrow> ext_state" where
  "execCallback document stdout stderr st =
     (if stderr \<noteq> [] \<and> trim stderr \<noteq> [] then
        statusError (first_line (trim stderr))
          (st\<lparr>console := console st @ [js ''[tangolint] '' @ trim stderr]\<rparr>)
      else
        (let diagnostics = parseOutput stdout
         in statusDone diagnostics
              (st\<lparr>diagnosticCollection := (diagnosticCollection st)(uri document \<mapsto> diagnostics)\<rparr>)))"

section \<open>Timers\<close>

definition setTimeout :: "nat \<Rightarrow> Uri \<Rightarrow> TextDocument \<Rightarrow> ext_state \<Rightarrow> nat \<times> ext_state" where
  "setTimeout delay key doc st =
     (next_timer st,
      st\<lparr>timers := timers st @
             [\<lparr>tm_id = next_timer st, tm_deadline = clock st + delay, tm_key = key, tm_doc = doc\<rparr>],
         next_timer := Suc (next_timer st)\<rparr>)"

definition clearTimeout :: "nat \<Rightarrow> ext_state \<Rightarrow> ext_state" where
  "clearTimeout h st = st\<lparr>timers := filter (\<lambda>t. tm_id t \<noteq> h) (timers st)\<rparr>"

section \<open>Event handlers\<close>

definition onDidOpenTextDocument :: "env \<Rightarrow> TextDocument \<Rightarrow> ext_state \<Rightarrow> ext_state" where
  "onDidOpenTextDocument e doc st =
     (if cfg_get (cfg_lintOnOpen (configuration e)) True then lintDocument e doc st else st)"

definition onDidSaveTextDocument :: "env \<Rightarrow> TextDocument \<Rightarrow> ext_state \<Rightarrow> ext_state" where
  "onDidSaveTextDocument e doc st =
     (if cfg_get (cfg_lintOnSave (configuration e)) True then lintDocument e doc st else st)"

definition onDidChangeTextDocument :: "env \<Rightarrow> TextDocument \<Rightarrow> ext_state \<Rightarrow> ext_state" where
  "onDidChangeTextDocument e doc st =
     (if \<not> cfg_get (cfg_lintOnChange (configuration e)) False then st
      else if languageId doc \<noteq> js ''python'' then st
      else (let key = uri doc;
                st1 = (case debounceTimers st key of
                         Some h \<Rightarrow> clearTimeout h st
                       | None \<Rightarrow> st);
                (h, st2) = setTimeout 600 key doc st1
            in st2\<lparr>debounceTimers := (debounceTimers st2)(key \<mapsto> h)\<rparr>))"

text \<open>The function handed to \<open>setTimeout\<close>.\<close>

definition timerCallback :: "env \<Rightarrow> Uri \<Rightarrow> TextDocument \<Rightarrow> ext_state \<Rightarrow> ext_state" where
  "timerCallback e key doc st =
     lintDocument e doc (st\<lparr>debounceTimers := (debounceTimers st)(key := None)\<rparr>)"

definition onDidCloseTextDocument :: "TextDocument \<Rightarrow> ext_state \<Rightarrow> ext_state" where
  "onDidCloseTextDocument doc st =
     (let st1 = st\<lparr>diagnosticCollection := (diagnosticCollection st)(uri doc := None)\<rparr>;
          key = uri doc;
          st2 = (case debounceTimers st1 key of
                   Some h \<Rightarrow> clearTimeout h st1
                 | None \<Rightarrow> st1)
      in st2\<lparr>debounceTimers := (debounceTimers st2)(key := None)\<rparr>)"

definition onDidChangeActiveTextEditor :: "TextDocument option \<Rightarrow> ext_state \<Rightarrow> ext_state" where
  "onDidChangeActiveTextEditor editor st =
     st\<lparr>statusBarItem := (statusBarItem st)\<lparr>
          sb_visible := (case editor of
                           None \<Rightarrow> False
                         | Some document \<Rightarrow> languageId document = js ''python'')\<rparr>\<rparr>"

definition lintFile :: "env \<Rightarrow> TextDocument option \<Rightarrow> ext_state \<Rightarrow> ext_state" where
  "lintFile e editor st =
     (case editor of None \<Rightarrow> st | Some document \<Rightarrow> lintDocument e document st)"

section \<open>Activation\<close>

definition unactivated :: ext_state where
  "unactivated =
     \<lparr>deployedLinterPath = None, diagnosticCollection = Map.empty,
      statusBarItem = \<lparr>sb_text = [], sb_tooltip = [], sb_visible = False\<rparr>,
      debounceTimers = Map.empty, timers = [], next_timer = 0, clock = 0, fired = [],
      running = [], console = [], errorMessages = []\<rparr>"

text \<open>
  \<open>activate\<close>, given what \<open>deployScripts\<close> did (the message of the error it threw, or
  the deployed path), the documents open at that time and the active editor's
  document. The diagnostic collection and the status bar item are created anew.
\<close>

definition activate :: "env \<Rightarrow> jsstring + jsstring \<Rightarrow> TextDocument list \<Rightarrow> TextDocument option \<Rightarrow> ext_state \<Rightarrow> ext_state" where
  "activate e deployed textDocuments activeTextEditor st =
     (case deployed of
        Inl message \<Rightarrow>
          st\<lparr>errorMessages := errorMessages st @
               [js ''TangoLint: failed to deploy scripts '' @ [0x2014] @ js '' '' @ message]\<rparr>
      | Inr p \<Rightarrow>
          (let st1 = st\<lparr>deployedLinterPath := Some p,
                       diagnosticCollection := Map.empty,
                       statusBarItem := \<lparr>sb_text = [], sb_tooltip = [], sb_visible = False\<rparr>\<rparr>;
               st2 = (if cfg_get (cfg_lintOnOpen (configuration e)) True
                      then foldl (\<lambda>s doc. lintDocument e doc s) st1 textDocuments
                      else st1)
           in (case activeTextEditor of
                 None \<Rightarrow> st2
               | Some document \<Rightarrow>
                   if languageId document = js ''python''
                   then st2\<lparr>statusBarItem := (statusBarItem st2)\<lparr>sb_visible := True\<rparr>\<rparr>
                   else st2)))"

section \<open>The event loop\<close>

text \<open>
  Time passing: the timers that have become due fire, in the order they were set
  (every timer of the module has the same delay, so this is the order they are due
  in). A timer cleared meanwhile does not fire.
\<close>

fun fire_due :: "env \<Rightarrow> nat \<Rightarrow> Timer list \<Rightarrow> ext_state \<Rightarrow> ext_state" where
  "fire_due e t [] st = st"
| "fire_due e t (tm # tms) st =
     (if tm_deadline tm \<le> t \<and> tm_id tm \<in> tm_id ` set (timers st) then
        fire_due e t tms
          (timerCallback e (tm_key tm) (tm_doc tm)
             (st\<lparr>timers := filter (\<lambda>x. tm_id x \<noteq> tm_id tm) (timers st),
                 fired := fired st @ [tm]\<rparr>))
      else fire_due e t tms st)"

definition advance :: "env \<Rightarrow> nat \<Rightarrow> ext_state \<Rightarrow> ext_state" where
  "advance e d st = fire_due e (clock st + d) (timers st) (st\<lparr>clock := clock st + d\<rparr>)"

text \<open>The subprocess at position \<open>i\<close> completes and its callback runs.\<close>

definition execDone :: "nat \<Rightarrow> jsstring \<Rightarrow> jsstring \<Rightarrow> ext_state \<Rightarrow> ext_state" where
  "execDone i stdout stderr st =
     (if i < length (running st) then
        execCallback (ex_document (running st ! i)) stdout stderr
          (st\<lparr>running := take i (running st) @ drop (Suc i) (running st)\<rparr>)
      else st)"

datatype event =
    DidOpen TextDocument
  | DidSave TextDocument
  | DidChange TextDocument
  | DidClose TextDocument
  | ActiveEditorChanged "TextDocument option"
  | LintFile "TextDocument option"
  | Elapse nat
  | ExecDone nat jsstring jsstring

fun step :: "env \<Rightarrow> event \<Rightarrow> ext_state \<Rightarrow> ext_state" where
  "step e (DidOpen doc) st = onDidOpenTextDocument e doc st"
| "step e (DidSave doc) st = onDidSaveTextDocument e doc st"
| "step e (DidChange doc) st = onDidChangeTextDocument e doc st"
| "step e (DidClose doc) st = onDidCloseTextDocument doc st"
| "step e (ActiveEditorChanged editor) st = onDidChangeActiveTextEditor editor st"
| "step e (LintFile editor) st = lintFile e editor st"
| "step e (Elapse d) st = advance e d st"
| "step e (ExecDone i stdout stderr) st = execDone i stdout stderr st"

fun event_documents :: "event \<Rightarrow> TextDocument set" where
  "event_documents (DidOpen doc) = {doc}"
| "event_documents (DidSave doc) = {doc}"
| "event_documents (DidChange doc) = {doc}"
| "event_documents (DidClose doc) = {doc}"
| "event_documents (ActiveEditorChanged editor) = set_option editor"
| "event_documents (LintFile editor) = set_option editor"
| "event_documents (Elapse d) = {}"
| "event_documents (ExecDone i stdout stderr) = {}"

text \<open>
  The states the module can be in after a successful activation, when every document
  the editor hands to it is one of \<open>D\<close>. The environment may differ from one event to
  the next.
\<close>

inductive reachable :: "TextDocument set \<Rightarrow> ext_state \<Rightarrow> bool" for D :: "TextDocument set" where
  activated:
    "set textDocuments \<subseteq> D \<Longrightarrow> set_option activeTextEditor \<subseteq> D \<Longrightarrow>
       reachable D (activate e (Inr p) textDocuments activeTextEditor unactivated)"
| stepped:
    "reachable D st \<Longrightarrow> event_documents ev \<subseteq> D \<Longrightarrow> reachable D (step e ev st)"

text \<open>The filter of the specification: a real file of the target language.\<close>

definition eligible :: "TextDocument \<Rightarrow> bool" where
  "eligible doc = (scheme (uri doc) = js ''file'' \<and> languageId doc = js ''python'')"




text \<open>
  The timer table and the host's timers agree: every pending timer is the one the
  table holds for its key, every handle in the table is a pending timer of that key,
  and no handle is used twice.
\<close>

definition timers_ok :: "ext_state \<Rightarrow> bool" where
  "timers_ok st =
     ((\<forall>t \<in> set (timers st). debounceTimers st (tm_key t) = Some (tm_id t) \<and> tm_id t < next_timer st) \<and>
      (\<forall>k \<in> dom (debounceTimers st). \<exists>t \<in> set (timers st). tm_key t = k \<and> debounceTimers st k = Some (tm_id t)) \<and>
      distinct (map tm_id (timers st)))"



text \<open>
  The filter as an invariant of the state, for the documents \<open>D\<close> the editor hands to
  the module: every entry of the diagnostic collection is under the URI of an eligible
  document, every subprocess in flight was launched for an eligible document, and the
  pending timers hold documents of \<open>D\<close>.
\<close>

definition filter_inv :: "TextDocument set \<Rightarrow> ext_state \<Rightarrow> bool" where
  "filter_inv D st =
     ((\<forall>u \<in> dom (diagnosticCollection st). \<exists>d \<in> D. uri d = u \<and> eligible d) \<and>
      (\<forall>x \<in> set (running st). ex_document x \<in> D \<and> eligible (ex_document x)) \<and>
      (\<forall>t \<in> set (timers st). tm_doc t \<in> D))"

section \<open>Facts about the matcher and the parser\<close>

lemma re_star_SomeD:
  "re_star P k acc s = Some r \<Longrightarrow>
     \<exists>xs rest. s = xs @ rest \<and> list_all P xs \<and> k (acc @ xs) rest = Some r"
proof (induction s arbitrary: acc)
  case Nil
  then show ?case by simp
next
  case (Cons c cs)
  show ?case
  proof (cases "P c \<and> re_star P k (acc @ [c]) cs \<noteq> None")
    case True
    with Cons.prems have "re_star P k (acc @ [c]) cs = Some r"
      by (auto split: option.splits)
    from Cons.IH [OF this] obtain xs rest
      where "cs = xs @ rest" "list_all P xs" "k ((acc @ [c]) @ xs) rest = Some r"
      by blast
    with True have "c # cs = (c # xs) @ rest \<and> list_all P (c # xs) \<and> k (acc @ c # xs) rest = Some r"
      by simp
    then show ?thesis by blast
  next
    case False
    with Cons.prems have "k acc (c # cs) = Some r"
      by (auto split: option.splits if_splits)
    then have "c # cs = [] @ (c # cs) \<and> list_all P [] \<and> k (acc @ []) (c # cs) = Some r"
      by simp
    then show ?thesis by blast
  qed
qed

lemma re_star_SomeE:
  assumes "re_star P k acc s = Some r"
  obtains xs rest where "s = xs @ rest" "list_all P xs" "k (acc @ xs) rest = Some r"
  using re_star_SomeD [OF assms] by blast

lemma re_plus_SomeE:
  assumes "re_plus P k s = Some r"
  obtains xs rest where "s = xs @ rest" "xs \<noteq> []" "list_all P xs" "k xs rest = Some r"
proof -
  from assms obtain c cs where s: "s = c # cs" and c: "P c" and st: "re_star P k [c] cs = Some r"
    by (auto simp: re_plus_def split: list.splits if_splits)
  from st obtain xs rest
    where "cs = xs @ rest" "list_all P xs" "k ([c] @ xs) rest = Some r"
    by (rule re_star_SomeE)
  with s c have "s = (c # xs) @ rest" "c # xs \<noteq> []" "list_all P (c # xs)" "k (c # xs) rest = Some r"
    by simp_all
  then show ?thesis by (rule that)
qed

lemma re_lit_SomeE:
  assumes "re_lit l k s = Some r"
  obtains rest where "s = l @ rest" "k rest = Some r"
  using assms by (induction l k s rule: re_lit.induct) (auto split: if_splits)

lemma re_alt_SomeE:
  assumes "re_alt as k s = Some r"
  obtains a rest where "a \<in> set as" "s = a @ rest" "k a rest = Some r"
  using assms
proof (induction as arbitrary: thesis)
  case Nil
  then show ?case by simp
next
  case (Cons a as)
  show ?case
  proof (cases "re_lit a (k a) s")
    case None
    with Cons.prems(2) have "re_alt as k s = Some r" by simp
    then show ?thesis
      using Cons.IH Cons.prems(1) by (metis list.set_intros(2))
  next
    case (Some r')
    with Cons.prems(2) have "re_lit a (k a) s = Some r" by simp
    then obtain rest where "s = a @ rest" "k a rest = Some r"
      by (rule re_lit_SomeE)
    then show ?thesis
      using Cons.prems(1) [of a rest] by simp
  qed
qed

lemma re_class_SomeE:
  assumes "re_class P k s = Some r"
  obtains c rest where "s = c # rest" "P c" "k c rest = Some r"
  using assms by (auto simp: re_class_def split: list.splits if_splits)

lemma re_eol_SomeE:
  assumes "re_eol r' s = Some r"
  obtains "s = []" "r = r'"
  using assms by (auto simp: re_eol_def split: if_splits)

lemma ISSUE_RE_sound:
  assumes "ISSUE_RE line = Some m"
  shows "line = render m \<and> issue_fields m"
  using assms unfolding ISSUE_RE_def
  by (elim re_star_SomeE re_plus_SomeE re_lit_SomeE re_alt_SomeE re_class_SomeE re_eol_SomeE)
     (simp add: render_def issue_fields_def digits1_def code_pattern_def)

lemma re_star_fallback: "k acc s \<noteq> None \<Longrightarrow> re_star P k acc s \<noteq> None"
  by (cases s) (auto split: option.splits)

lemma re_star_complete:
  "list_all P xs \<Longrightarrow> k (acc @ xs) rest \<noteq> None \<Longrightarrow> re_star P k acc (xs @ rest) \<noteq> None"
proof (induction xs arbitrary: acc)
  case Nil
  then show ?case by (simp add: re_star_fallback)
next
  case (Cons x xs)
  then have "re_star P k (acc @ [x]) (xs @ rest) \<noteq> None"
    by simp
  with Cons.prems show ?case by (auto split: option.splits)
qed

lemma re_plus_complete:
  "xs \<noteq> [] \<Longrightarrow> list_all P xs \<Longrightarrow> k xs rest \<noteq> None \<Longrightarrow> re_plus P k (xs @ rest) \<noteq> None"
  using re_star_complete [of P "tl xs" k "[hd xs]" rest]
  by (cases xs) (simp_all add: re_plus_def)

lemma re_lit_complete: "k rest \<noteq> None \<Longrightarrow> re_lit l k (l @ rest) \<noteq> None"
  by (induction l) simp_all

lemma re_alt_complete:
  "a \<in> set as \<Longrightarrow> k a rest \<noteq> None \<Longrightarrow> re_alt as k (a @ rest) \<noteq> None"
proof (induction as)
  case Nil
  then show ?case by simp
next
  case (Cons b as)
  then show ?case
    using re_lit_complete [of "k a" rest a]
    by (cases "re_lit b (k b) (a @ rest)") auto
qed

lemma re_class_complete: "P c \<Longrightarrow> k c rest \<noteq> None \<Longrightarrow> re_class P k (c # rest) \<noteq> None"
  by (simp add: re_class_def)

text \<open>Every line the grammar spells is matched.\<close>

lemma ISSUE_RE_complete:
  assumes "issue_fields m"
  shows "ISSUE_RE (render m) \<noteq> None"
proof -
  from assms obtain u ds where code: "m_code m = u # ds" "is_upper u" "ds \<noteq> []" "list_all is_digit ds"
    by (cases "m_code m") (auto simp: issue_fields_def code_pattern_def digits1_def)
  from assms have f: "list_all is_dot (m_path m)" "m_lineStr m \<noteq> []" "list_all is_digit (m_lineStr m)"
    "m_colStr m \<noteq> []" "list_all is_digit (m_colStr m)"
    "m_severity m \<in> set [js ''error'', js ''warning'', js ''info'']"
    "m_message m \<noteq> []" "list_all is_dot (m_message m)"
    by (auto simp: issue_fields_def digits1_def)
  have r: "render m = m_path m @ js '':'' @ m_lineStr m @ js '':'' @ m_colStr m @ js '': '' @
      m_severity m @ js '': '' @ u # ds @ js '' '' @ m_message m @ []"
    by (simp add: render_def code)
  show ?thesis
    unfolding ISSUE_RE_def r
    by (intro re_star_complete re_plus_complete re_lit_complete re_alt_complete re_class_complete f code)
       (simp add: re_eol_def)
qed


lemma matches_grammar_iff: "matches_grammar l \<longleftrightarrow> ISSUE_RE l \<noteq> None"
proof
  assume "matches_grammar l"
  then show "ISSUE_RE l \<noteq> None"
    unfolding matches_grammar_def using ISSUE_RE_complete by blast
next
  assume "ISSUE_RE l \<noteq> None"
  then obtain m where "ISSUE_RE l = Some m" by blast
  from ISSUE_RE_sound [OF this] show "matches_grammar l"
    unfolding matches_grammar_def by blast
qed




lemma parse_lines_append:
  "parse_lines (xs @ ys) acc = parse_lines ys (parse_lines xs acc)"
  by (induction xs arbitrary: acc) (auto split: option.splits)

lemma parse_lines_acc: "parse_lines xs acc = acc @ parse_lines xs []"
proof (induction xs arbitrary: acc)
  case Nil
  then show ?case by simp
next
  case (Cons l ls)
  show ?case
  proof (cases "ISSUE_RE l")
    case None
    then show ?thesis using Cons [of acc] by simp
  next
    case (Some m)
    have "parse_lines (l # ls) acc = (acc @ [mk_diagnostic m]) @ parse_lines ls []"
      using Some Cons [of "acc @ [mk_diagnostic m]"] by simp
    also have "\<dots> = acc @ parse_lines ls [mk_diagnostic m]"
      using Cons [of "[mk_diagnostic m]"] by simp
    finally show ?thesis using Some by simp
  qed
qed

lemma parse_lines_map_filter:
  "parse_lines xs [] = List.map_filter (\<lambda>l. map_option mk_diagnostic (ISSUE_RE l)) xs"
proof (induction xs)
  case Nil
  then show ?case by (simp add: List.map_filter_simps)
next
  case (Cons l ls)
  show ?case
  proof (cases "ISSUE_RE l")
    case None
    with Cons show ?thesis by (simp add: List.map_filter_simps)
  next
    case (Some m)
    have "parse_lines (l # ls) [] = parse_lines ls [mk_diagnostic m]"
      using Some by simp
    also have "\<dots> = mk_diagnostic m # parse_lines ls []"
      using parse_lines_acc [of ls "[mk_diagnostic m]"] by simp
    finally show ?thesis
      using Some Cons by (simp add: List.map_filter_simps)
  qed
qed

lemma split_acc_nl:
  "split_acc cur (a @ 0x0A # b) = split_acc cur a @ split_acc [] b"
  by (induction a arbitrary: cur) auto

lemma split_acc_line: "0x0A \<notin> set l \<Longrightarrow> split_acc cur l = [cur @ l]"
  by (induction l arbitrary: cur) auto

lemma split_acc_no_nl:
  "l \<in> set (split_acc cur s) \<Longrightarrow> 0x0A \<notin> set cur \<Longrightarrow> 0x0A \<notin> set l"
proof (induction s arbitrary: cur)
  case Nil
  then show ?case by simp
next
  case (Cons c cs)
  show ?case
  proof (cases "c = 0x0A")
    case True
    with Cons.prems have "l = cur \<or> l \<in> set (split_acc [] cs)" by simp
    then show ?thesis
      using Cons.prems(2) Cons.IH [of "[]"] by auto
  next
    case False
    with Cons.prems have "l \<in> set (split_acc (cur @ [c]) cs)" by simp
    moreover from False Cons.prems(2) have "0x0A \<notin> set (cur @ [c])" by simp
    ultimately show ?thesis by (rule Cons.IH)
  qed
qed

lemma parseOutput_line_removed:
  assumes "ISSUE_RE l = None" "0x0A \<notin> set l"
  shows "parseOutput (a @ 0x0A # l @ 0x0A # b) = parseOutput (a @ 0x0A # b)"
proof -
  have "split_nl (a @ 0x0A # l @ 0x0A # b) = split_nl a @ [l] @ split_nl b"
    using assms(2) split_acc_nl [of "[]" a "l @ 0x0A # b"] split_acc_nl [of "[]" l b]
    by (simp add: split_nl_def split_acc_line)
  moreover have "split_nl (a @ 0x0A # b) = split_nl a @ split_nl b"
    by (simp add: split_nl_def split_acc_nl)
  ultimately show ?thesis
    using assms(1) by (simp add: parseOutput_def parse_lines_append)
qed

lemma parseOutput_none:
  assumes "\<forall>l \<in> set (split_nl stdout). ISSUE_RE l = None"
  shows "parseOutput stdout = []"
proof -
  have "\<forall>l \<in> set ls. ISSUE_RE l = None \<Longrightarrow> parse_lines ls acc = acc" for ls acc
    by (induction ls arbitrary: acc) auto
  with assms show ?thesis by (simp add: parseOutput_def)
qed

lemma parseOutput_memD:
  assumes "d \<in> set (parseOutput stdout)"
  shows "\<exists>line m. line \<in> set (split_nl stdout) \<and> ISSUE_RE line = Some m \<and> d = mk_diagnostic m"
  using assms
  by (auto simp: parseOutput_def parse_lines_map_filter List.map_filter_def)

lemmas parse_eval =
  parseOutput_def split_nl_def js_def ISSUE_RE_def re_plus_def re_class_def re_eol_def
  is_dot_def is_digit_def is_upper_def mk_diagnostic_def parseInt10_def digit_val_def
  toVSCodeSeverity_def

lemma line_no_nl:
  assumes "ISSUE_RE line = Some m"
  shows "0x0A \<notin> set line"
proof -
  have dot: "list_all is_dot xs \<Longrightarrow> 0x0A \<notin> set xs" for xs
    by (auto simp: list_all_iff is_dot_def)
  have dig: "list_all is_digit xs \<Longrightarrow> 0x0A \<notin> set xs" for xs
    by (auto simp: list_all_iff is_digit_def)
  have code: "code_pattern xs \<Longrightarrow> 0x0A \<notin> set xs" for xs
    by (cases xs) (auto simp: code_pattern_def digits1_def is_upper_def dest: dig)
  from ISSUE_RE_sound [OF assms] have "line = render m" "issue_fields m"
    by simp_all
  then show ?thesis
    unfolding render_def issue_fields_def digits1_def
    using dot [of "m_path m"] dot [of "m_message m"] dig [of "m_lineStr m"] dig [of "m_colStr m"]
      code [of "m_code m"]
    by (auto simp: js_def)
qed

lemma parseOutput_single:
  assumes "ISSUE_RE line = Some m"
  shows "parseOutput line = [mk_diagnostic m]"
  using assms line_no_nl [OF assms]
  by (simp add: parseOutput_def split_nl_def split_acc_line)

lemma trim_Nil: "trim [] = []"
  by (simp add: trim_def)

section \<open>Facts about the rule registry\<close>

lemma distinct_ALL_RULE_CODES: "distinct ALL_RULE_CODES"
  by (simp add: ALL_RULE_CODES_def js_def)

lemma disable_not_code: "js ''--disable'' \<notin> set ALL_RULE_CODES"
  by (simp add: ALL_RULE_CODES_def js_def)

lemma getDisabledRules_eq:
  "getDisabledRules e = filter (rule_disabled (configuration e)) ALL_RULE_CODES"
  unfolding getDisabledRules_def rule_disabled_def cfg_get_def
  by (rule filter_cong) (auto split: option.splits)

lemma concat_map_filter_if:
  "concat (map f (filter P xs)) = concat (map (\<lambda>x. if P x then f x else []) xs)"
  by (induction xs) simp_all

lemma count_pairs:
  assumes "distinct xs" "d \<notin> set xs" "x \<in> set xs"
  shows "count_list (concat (map (\<lambda>c. if P c then [d, c] else []) xs)) x = (if P x then 1 else 0)"
  using assms
proof (induction xs)
  case Nil
  then show ?case by simp
next
  case (Cons y ys)
  have notin: "count_list (concat (map (\<lambda>c. if P c then [d, c] else []) ys)) z = 0"
    if "z \<notin> set ys" "z \<noteq> d" for z
    using that by (induction ys) auto
  show ?case
  proof (cases "x = y")
    case True
    with Cons.prems have "x \<notin> set ys" "x \<noteq> d" by auto
    from notin [OF this] True Cons.prems show ?thesis by auto
  next
    case False
    with Cons show ?thesis by auto
  qed
qed

section \<open>Facts about timers and events\<close>

lemma lintDocument_frame [simp]:
  "timers (lintDocument e d st) = timers st"
  "next_timer (lintDocument e d st) = next_timer st"
  "clock (lintDocument e d st) = clock st"
  "fired (lintDocument e d st) = fired st"
  "debounceTimers (lintDocument e d st) = debounceTimers st"
  "deployedLinterPath (lintDocument e d st) = deployedLinterPath st"
  by (simp_all add: lintDocument_def statusRunning_def Let_def split: option.splits)

lemma timerCallback_frame [simp]:
  "timers (timerCallback e k d st) = timers st"
  "next_timer (timerCallback e k d st) = next_timer st"
  "clock (timerCallback e k d st) = clock st"
  "fired (timerCallback e k d st) = fired st"
  "debounceTimers (timerCallback e k d st) = (debounceTimers st)(k := None)"
  by (simp_all add: timerCallback_def)

lemma distinct_ids_eq:
  assumes "distinct (map tm_id xs)" "x \<in> set xs" "y \<in> set xs" "tm_id x = tm_id y"
  shows "x = y"
  using assms by (meson distinct_map inj_onD)

lemma fire_due_effect:
  assumes "distinct (map tm_id (timers st))" "set tms \<subseteq> set (timers st)"
    "distinct (map tm_id tms)"
  shows "timers (fire_due e t tms st) =
           filter (\<lambda>x. \<not> (tm_deadline x \<le> t \<and> x \<in> set tms)) (timers st) \<and>
         fired (fire_due e t tms st) = fired st @ filter (\<lambda>x. tm_deadline x \<le> t) tms \<and>
         debounceTimers (fire_due e t tms st) =
           (\<lambda>k. if \<exists>x \<in> set tms. tm_deadline x \<le> t \<and> tm_key x = k then None
                else debounceTimers st k) \<and>
         clock (fire_due e t tms st) = clock st \<and>
         next_timer (fire_due e t tms st) = next_timer st"
  using assms
proof (induction tms arbitrary: st)
  case Nil
  then show ?case by simp
next
  case (Cons tm tms)
  from Cons.prems have tm_in: "tm \<in> set (timers st)" and sub: "set tms \<subseteq> set (timers st)"
    and d_tms: "distinct (map tm_id tms)" and fresh: "tm_id tm \<notin> tm_id ` set tms"
    by auto
  have id_iff: "tm_id x \<noteq> tm_id tm \<longleftrightarrow> x \<noteq> tm" if "x \<in> set (timers st)" for x
    using distinct_ids_eq [OF Cons.prems(1) that tm_in] by auto
  show ?case
  proof (cases "tm_deadline tm \<le> t")
    case True
    let ?st' = "timerCallback e (tm_key tm) (tm_doc tm)
       (st\<lparr>timers := filter (\<lambda>x. tm_id x \<noteq> tm_id tm) (timers st), fired := fired st @ [tm]\<rparr>)"
    have f: "fire_due e t (tm # tms) st = fire_due e t tms ?st'"
      using True tm_in by simp
    have tim: "timers ?st' = filter (\<lambda>x. x \<noteq> tm) (timers st)"
      using id_iff by (simp cong: filter_cong)
    have p1: "distinct (map tm_id (timers ?st'))"
      unfolding tim using Cons.prems(1) by (simp add: distinct_map_filter)
    have p2: "set tms \<subseteq> set (timers ?st')"
      unfolding tim using sub fresh by auto
    note ih = Cons.IH [OF p1 p2 d_tms]
    have "timers (fire_due e t (tm # tms) st) =
        filter (\<lambda>x. \<not> (tm_deadline x \<le> t \<and> x \<in> set (tm # tms))) (timers st)"
      unfolding f using ih True unfolding tim
      by (auto intro!: filter_cong)
    moreover have "fired (fire_due e t (tm # tms) st) =
        fired st @ filter (\<lambda>x. tm_deadline x \<le> t) (tm # tms)"
      unfolding f using ih True by simp
    moreover have "debounceTimers (fire_due e t (tm # tms) st) =
        (\<lambda>k. if \<exists>x \<in> set (tm # tms). tm_deadline x \<le> t \<and> tm_key x = k then None
              else debounceTimers st k)"
      unfolding f using ih True by (auto simp: fun_eq_iff)
    moreover have "clock (fire_due e t (tm # tms) st) = clock st"
      "next_timer (fire_due e t (tm # tms) st) = next_timer st"
      unfolding f using ih by simp_all
    ultimately show ?thesis by blast
  next
    case False
    then have f: "fire_due e t (tm # tms) st = fire_due e t tms st"
      by simp
    note ih = Cons.IH [OF Cons.prems(1) sub d_tms]
    have "timers (fire_due e t (tm # tms) st) =
        filter (\<lambda>x. \<not> (tm_deadline x \<le> t \<and> x \<in> set (tm # tms))) (timers st)"
      unfolding f using ih False by (auto intro!: filter_cong)
    moreover have "fired (fire_due e t (tm # tms) st) =
        fired st @ filter (\<lambda>x. tm_deadline x \<le> t) (tm # tms)"
      unfolding f using ih False by simp
    moreover have "debounceTimers (fire_due e t (tm # tms) st) =
        (\<lambda>k. if \<exists>x \<in> set (tm # tms). tm_deadline x \<le> t \<and> tm_key x = k then None
              else debounceTimers st k)"
      unfolding f using ih False by (auto simp: fun_eq_iff)
    moreover have "clock (fire_due e t (tm # tms) st) = clock st"
      "next_timer (fire_due e t (tm # tms) st) = next_timer st"
      unfolding f using ih by simp_all
    ultimately show ?thesis by blast
  qed
qed

lemma advance_effect:
  assumes "distinct (map tm_id (timers st))"
  shows "timers (advance e d st) = filter (\<lambda>x. \<not> tm_deadline x \<le> clock st + d) (timers st)"
    "fired (advance e d st) = fired st @ filter (\<lambda>x. tm_deadline x \<le> clock st + d) (timers st)"
    "debounceTimers (advance e d st) =
       (\<lambda>k. if \<exists>x \<in> set (timers st). tm_deadline x \<le> clock st + d \<and> tm_key x = k then None
            else debounceTimers st k)"
    "clock (advance e d st) = clock st + d"
    "next_timer (advance e d st) = next_timer st"
proof -
  let ?st = "st\<lparr>clock := clock st + d\<rparr>"
  have "distinct (map tm_id (timers ?st))" "set (timers st) \<subseteq> set (timers ?st)"
    using assms by simp_all
  from fire_due_effect [OF this assms, of e "clock st + d"]
  have k: "timers (advance e d st) =
        filter (\<lambda>x. \<not> (tm_deadline x \<le> clock st + d \<and> x \<in> set (timers st))) (timers st)"
    "fired (advance e d st) = fired st @ filter (\<lambda>x. tm_deadline x \<le> clock st + d) (timers st)"
    "debounceTimers (advance e d st) =
       (\<lambda>k. if \<exists>x \<in> set (timers st). tm_deadline x \<le> clock st + d \<and> tm_key x = k then None
            else debounceTimers st k)"
    "clock (advance e d st) = clock st + d"
    "next_timer (advance e d st) = next_timer st"
    unfolding advance_def by (simp_all cong: if_cong)
  have "filter (\<lambda>x. \<not> (tm_deadline x \<le> clock st + d \<and> x \<in> set (timers st))) (timers st) =
      filter (\<lambda>x. \<not> tm_deadline x \<le> clock st + d) (timers st)"
    by (rule filter_cong) auto
  with k(1) show "timers (advance e d st) = filter (\<lambda>x. \<not> tm_deadline x \<le> clock st + d) (timers st)"
    by simp
  show "fired (advance e d st) = fired st @ filter (\<lambda>x. tm_deadline x \<le> clock st + d) (timers st)"
    "debounceTimers (advance e d st) =
       (\<lambda>k. if \<exists>x \<in> set (timers st). tm_deadline x \<le> clock st + d \<and> tm_key x = k then None
            else debounceTimers st k)"
    "clock (advance e d st) = clock st + d"
    "next_timer (advance e d st) = next_timer st"
    by (fact k)+
qed

lemma advance_timers_ok:
  assumes "timers_ok st"
  shows "timers_ok (advance e d st)"
proof -
  from assms have dist: "distinct (map tm_id (timers st))"
    by (simp add: timers_ok_def)
  note eff = advance_effect [OF dist, of e d]
  have uniq: "x = y" if "x \<in> set (timers st)" "y \<in> set (timers st)" "tm_key x = tm_key y" for x y
  proof -
    from assms have "\<forall>t \<in> set (timers st). debounceTimers st (tm_key t) = Some (tm_id t)"
      by (simp add: timers_ok_def)
    with that have "debounceTimers st (tm_key x) = Some (tm_id x)"
      "debounceTimers st (tm_key y) = Some (tm_id y)"
      by blast+
    with that(3) have "tm_id x = tm_id y"
      by simp
    with dist that show ?thesis by (meson distinct_ids_eq)
  qed
  have 1: "debounceTimers (advance e d st) (tm_key t) = Some (tm_id t) \<and>
           tm_id t < next_timer (advance e d st)" if "t \<in> set (timers (advance e d st))" for t
  proof -
    from that have t: "t \<in> set (timers st)" "\<not> tm_deadline t \<le> clock st + d"
      by (simp_all add: eff)
    have "\<not> (\<exists>x \<in> set (timers st). tm_deadline x \<le> clock st + d \<and> tm_key x = tm_key t)"
      using uniq t by blast
    with assms t show ?thesis
      by (simp add: eff timers_ok_def)
  qed
  have 2: "\<exists>t \<in> set (timers (advance e d st)). tm_key t = k \<and>
           debounceTimers (advance e d st) k = Some (tm_id t)"
    if "k \<in> dom (debounceTimers (advance e d st))" for k
  proof -
    from that have nd: "\<not> (\<exists>x \<in> set (timers st). tm_deadline x \<le> clock st + d \<and> tm_key x = k)"
      and k: "k \<in> dom (debounceTimers st)"
      by (auto simp: eff split: if_splits)
    from assms k obtain t where "t \<in> set (timers st)" "tm_key t = k"
      "debounceTimers st k = Some (tm_id t)"
      by (auto simp: timers_ok_def)
    with nd show ?thesis
      by (auto simp: eff)
  qed
  have 3: "distinct (map tm_id (timers (advance e d st)))"
    using dist by (simp add: eff distinct_map_filter)
  show ?thesis
    unfolding timers_ok_def using 1 2 3 by blast
qed

lemma timers_ok_unique_key:
  assumes "timers_ok st" "x \<in> set (timers st)" "y \<in> set (timers st)" "tm_key x = tm_key y"
  shows "x = y"
proof -
  from assms(1) have "\<forall>t \<in> set (timers st). debounceTimers st (tm_key t) = Some (tm_id t)"
    and dist: "distinct (map tm_id (timers st))"
    by (simp_all add: timers_ok_def)
  with assms(2,3) have "debounceTimers st (tm_key x) = Some (tm_id x)"
    "debounceTimers st (tm_key y) = Some (tm_id y)"
    by blast+
  with assms(4) have "tm_id x = tm_id y"
    by simp
  with dist assms(2,3) show ?thesis by (meson distinct_ids_eq)
qed

text \<open>Clearing the handle the table holds for a key removes the timers of that key.\<close>

lemma cancel_timers:
  assumes "timers_ok st"
  shows "timers (case debounceTimers st k of Some h \<Rightarrow> clearTimeout h st | None \<Rightarrow> st) =
           filter (\<lambda>x. tm_key x \<noteq> k) (timers st)"
proof (cases "debounceTimers st k")
  case None
  have "tm_key x \<noteq> k" if "x \<in> set (timers st)" for x
  proof
    assume "tm_key x = k"
    moreover from assms that have "debounceTimers st (tm_key x) = Some (tm_id x)"
      by (simp add: timers_ok_def)
    ultimately show False using None by simp
  qed
  then have "filter (\<lambda>x. tm_key x \<noteq> k) (timers st) = timers st"
    by (simp add: filter_id_conv)
  with None show ?thesis by simp
next
  case (Some h)
  then have "k \<in> dom (debounceTimers st)" by auto
  with assms obtain t where t: "t \<in> set (timers st)" "tm_key t = k"
    "debounceTimers st k = Some (tm_id t)"
    unfolding timers_ok_def by blast
  with Some have h: "h = tm_id t" by simp
  from assms have dist: "distinct (map tm_id (timers st))"
    by (simp add: timers_ok_def)
  have "tm_id x \<noteq> h \<longleftrightarrow> tm_key x \<noteq> k" if "x \<in> set (timers st)" for x
  proof
    assume "tm_id x \<noteq> h"
    then have "x \<noteq> t" using h by auto
    then show "tm_key x \<noteq> k"
      using timers_ok_unique_key [OF assms that t(1)] t(2) by auto
  next
    assume "tm_key x \<noteq> k"
    then have "x \<noteq> t" using t(2) by auto
    then show "tm_id x \<noteq> h"
      using distinct_ids_eq [OF dist that t(1)] h by auto
  qed
  then have "filter (\<lambda>x. tm_id x \<noteq> h) (timers st) = filter (\<lambda>x. tm_key x \<noteq> k) (timers st)"
    by (auto intro: filter_cong)
  with Some show ?thesis by (simp add: clearTimeout_def)
qed

lemma cancel_frame:
  "fired (case debounceTimers st k of Some h \<Rightarrow> clearTimeout h st | None \<Rightarrow> st) = fired st"
  "clock (case debounceTimers st k of Some h \<Rightarrow> clearTimeout h st | None \<Rightarrow> st) = clock st"
  "next_timer (case debounceTimers st k of Some h \<Rightarrow> clearTimeout h st | None \<Rightarrow> st) = next_timer st"
  "debounceTimers (case debounceTimers st k of Some h \<Rightarrow> clearTimeout h st | None \<Rightarrow> st) =
     debounceTimers st"
  "diagnosticCollection (case debounceTimers st k of Some h \<Rightarrow> clearTimeout h st | None \<Rightarrow> st) =
     diagnosticCollection st"
  "running (case debounceTimers st k of Some h \<Rightarrow> clearTimeout h st | None \<Rightarrow> st) = running st"
  by (simp_all add: clearTimeout_def split: option.splits)

lemma change_effect:
  assumes "timers_ok st" "cfg_get (cfg_lintOnChange (configuration e)) False"
    "languageId doc = js ''python''"
  shows "timers (onDidChangeTextDocument e doc st) =
           filter (\<lambda>x. tm_key x \<noteq> uri doc) (timers st) @
           [\<lparr>tm_id = next_timer st, tm_deadline = clock st + 600, tm_key = uri doc, tm_doc = doc\<rparr>]"
    "fired (onDidChangeTextDocument e doc st) = fired st"
    "clock (onDidChangeTextDocument e doc st) = clock st"
    "next_timer (onDidChangeTextDocument e doc st) = Suc (next_timer st)"
    "debounceTimers (onDidChangeTextDocument e doc st) = (debounceTimers st)(uri doc \<mapsto> next_timer st)"
  using assms(2,3) cancel_timers [OF assms(1), of "uri doc"] cancel_frame [of st "uri doc"]
  by (simp_all add: onDidChangeTextDocument_def setTimeout_def Let_def)

lemma change_timers_ok:
  assumes "timers_ok st"
  shows "timers_ok (onDidChangeTextDocument e doc st)"
proof (cases "cfg_get (cfg_lintOnChange (configuration e)) False \<and> languageId doc = js ''python''")
  case False
  with assms show ?thesis by (auto simp: onDidChangeTextDocument_def)
next
  case True
  from True have en: "cfg_get (cfg_lintOnChange (configuration e)) False" "languageId doc = js ''python''"
    by simp_all
  note eff = change_effect [OF assms en]
  from assms have ok1: "\<forall>t \<in> set (timers st). debounceTimers st (tm_key t) = Some (tm_id t) \<and> tm_id t < next_timer st"
    and ok2: "\<forall>k \<in> dom (debounceTimers st). \<exists>t \<in> set (timers st). tm_key t = k \<and> debounceTimers st k = Some (tm_id t)"
    and dist: "distinct (map tm_id (timers st))"
    by (simp_all add: timers_ok_def)
  have 1: "\<forall>t \<in> set (timers (onDidChangeTextDocument e doc st)).
      debounceTimers (onDidChangeTextDocument e doc st) (tm_key t) = Some (tm_id t) \<and>
      tm_id t < next_timer (onDidChangeTextDocument e doc st)"
    unfolding eff using ok1 by (auto simp: less_Suc_eq)
  have 2: "\<forall>k \<in> dom (debounceTimers (onDidChangeTextDocument e doc st)).
      \<exists>t \<in> set (timers (onDidChangeTextDocument e doc st)).
        tm_key t = k \<and> debounceTimers (onDidChangeTextDocument e doc st) k = Some (tm_id t)"
  proof
    fix k assume k: "k \<in> dom (debounceTimers (onDidChangeTextDocument e doc st))"
    show "\<exists>t \<in> set (timers (onDidChangeTextDocument e doc st)).
        tm_key t = k \<and> debounceTimers (onDidChangeTextDocument e doc st) k = Some (tm_id t)"
    proof (cases "k = uri doc")
      case True
      then show ?thesis unfolding eff by simp
    next
      case False
      with k have "k \<in> dom (debounceTimers st)" unfolding eff by auto
      with ok2 obtain t where "t \<in> set (timers st)" "tm_key t = k" "debounceTimers st k = Some (tm_id t)"
        by blast
      with False show ?thesis unfolding eff by auto
    qed
  qed
  have 3: "distinct (map tm_id (timers (onDidChangeTextDocument e doc st)))"
    unfolding eff using dist ok1 by (auto simp: distinct_map_filter)
  show ?thesis
    unfolding timers_ok_def using 1 2 3 by blast
qed

lemma close_effect:
  assumes "timers_ok st"
  shows "timers (onDidCloseTextDocument doc st) = filter (\<lambda>x. tm_key x \<noteq> uri doc) (timers st)"
    "fired (onDidCloseTextDocument doc st) = fired st"
    "clock (onDidCloseTextDocument doc st) = clock st"
    "next_timer (onDidCloseTextDocument doc st) = next_timer st"
    "debounceTimers (onDidCloseTextDocument doc st) = (debounceTimers st)(uri doc := None)"
    "diagnosticCollection (onDidCloseTextDocument doc st) = (diagnosticCollection st)(uri doc := None)"
proof -
  let ?st1 = "st\<lparr>diagnosticCollection := (diagnosticCollection st)(uri doc := None)\<rparr>"
  have ok: "timers_ok ?st1"
    using assms by (simp add: timers_ok_def)
  show "timers (onDidCloseTextDocument doc st) = filter (\<lambda>x. tm_key x \<noteq> uri doc) (timers st)"
    "fired (onDidCloseTextDocument doc st) = fired st"
    "clock (onDidCloseTextDocument doc st) = clock st"
    "next_timer (onDidCloseTextDocument doc st) = next_timer st"
    "debounceTimers (onDidCloseTextDocument doc st) = (debounceTimers st)(uri doc := None)"
    "diagnosticCollection (onDidCloseTextDocument doc st) = (diagnosticCollection st)(uri doc := None)"
    using cancel_timers [OF ok, of "uri doc"] cancel_frame [of ?st1 "uri doc"]
    by (simp_all add: onDidCloseTextDocument_def Let_def)
qed

lemma close_timers_ok:
  assumes "timers_ok st"
  shows "timers_ok (onDidCloseTextDocument doc st)"
proof -
  note eff = close_effect [OF assms, of doc]
  from assms have ok1: "\<forall>t \<in> set (timers st). debounceTimers st (tm_key t) = Some (tm_id t) \<and> tm_id t < next_timer st"
    and ok2: "\<forall>k \<in> dom (debounceTimers st). \<exists>t \<in> set (timers st). tm_key t = k \<and> debounceTimers st k = Some (tm_id t)"
    and dist: "distinct (map tm_id (timers st))"
    by (simp_all add: timers_ok_def)
  have 1: "\<forall>t \<in> set (timers (onDidCloseTextDocument doc st)).
      debounceTimers (onDidCloseTextDocument doc st) (tm_key t) = Some (tm_id t) \<and>
      tm_id t < next_timer (onDidCloseTextDocument doc st)"
    unfolding eff using ok1 by auto
  have 2: "\<forall>k \<in> dom (debounceTimers (onDidCloseTextDocument doc st)).
      \<exists>t \<in> set (timers (onDidCloseTextDocument doc st)).
        tm_key t = k \<and> debounceTimers (onDidCloseTextDocument doc st) k = Some (tm_id t)"
  proof
    fix k assume "k \<in> dom (debounceTimers (onDidCloseTextDocument doc st))"
    then have k: "k \<noteq> uri doc" "k \<in> dom (debounceTimers st)"
      unfolding eff by (auto split: if_splits)
    with ok2 obtain t where "t \<in> set (timers st)" "tm_key t = k" "debounceTimers st k = Some (tm_id t)"
      by blast
    with k show "\<exists>t \<in> set (timers (onDidCloseTextDocument doc st)).
        tm_key t = k \<and> debounceTimers (onDidCloseTextDocument doc st) k = Some (tm_id t)"
      unfolding eff by auto
  qed
  have 3: "distinct (map tm_id (timers (onDidCloseTextDocument doc st)))"
    unfolding eff using dist by (simp add: distinct_map_filter)
  show ?thesis
    unfolding timers_ok_def using 1 2 3 by blast
qed

lemma timers_ok_cong:
  assumes "timers st' = timers st" "debounceTimers st' = debounceTimers st"
    "next_timer st' = next_timer st"
  shows "timers_ok st' = timers_ok st"
  using assms by (simp add: timers_ok_def)

lemma execCallback_frame [simp]:
  "timers (execCallback doc out err st) = timers st"
  "next_timer (execCallback doc out err st) = next_timer st"
  "clock (execCallback doc out err st) = clock st"
  "fired (execCallback doc out err st) = fired st"
  "debounceTimers (execCallback doc out err st) = debounceTimers st"
  "running (execCallback doc out err st) = running st"
  by (simp_all add: execCallback_def statusError_def statusDone_def Let_def)

lemma execDone_frame [simp]:
  "timers (execDone i out err st) = timers st"
  "next_timer (execDone i out err st) = next_timer st"
  "clock (execDone i out err st) = clock st"
  "fired (execDone i out err st) = fired st"
  "debounceTimers (execDone i out err st) = debounceTimers st"
  by (simp_all add: execDone_def)

lemma foldl_lintDocument_frame [simp]:
  "timers (foldl (\<lambda>s doc. lintDocument e doc s) st docs) = timers st"
  "next_timer (foldl (\<lambda>s doc. lintDocument e doc s) st docs) = next_timer st"
  "clock (foldl (\<lambda>s doc. lintDocument e doc s) st docs) = clock st"
  "fired (foldl (\<lambda>s doc. lintDocument e doc s) st docs) = fired st"
  "debounceTimers (foldl (\<lambda>s doc. lintDocument e doc s) st docs) = debounceTimers st"
  by (induction docs arbitrary: st) simp_all

lemma activate_frame [simp]:
  "timers (activate e dep docs active st) = timers st"
  "next_timer (activate e dep docs active st) = next_timer st"
  "clock (activate e dep docs active st) = clock st"
  "fired (activate e dep docs active st) = fired st"
  "debounceTimers (activate e dep docs active st) = debounceTimers st"
  by (simp_all add: activate_def Let_def split: sum.splits option.splits)

lemma step_timers_ok:
  assumes "timers_ok st"
  shows "timers_ok (step e ev st)"
proof (cases ev)
  case (DidOpen doc)
  then show ?thesis
    using assms timers_ok_cong [of "lintDocument e doc st" st]
    by (simp add: onDidOpenTextDocument_def)
next
  case (DidSave doc)
  then show ?thesis
    using assms timers_ok_cong [of "lintDocument e doc st" st]
    by (simp add: onDidSaveTextDocument_def)
next
  case (DidChange doc)
  then show ?thesis using change_timers_ok [OF assms] by simp
next
  case (DidClose doc)
  then show ?thesis using close_timers_ok [OF assms] by simp
next
  case (ActiveEditorChanged editor)
  then show ?thesis
    using assms by (simp add: onDidChangeActiveTextEditor_def timers_ok_def)
next
  case (LintFile editor)
  then show ?thesis
    using assms timers_ok_cong [of "lintDocument e (the editor) st" st]
    by (cases editor) (simp_all add: lintFile_def)
next
  case (Elapse d)
  then show ?thesis using advance_timers_ok [OF assms] by simp
next
  case (ExecDone i out err)
  then show ?thesis
    using assms timers_ok_cong [of "execDone i out err st" st] by simp
qed

lemma reachable_timers_ok: "reachable D st \<Longrightarrow> timers_ok st"
proof (induction rule: reachable.induct)
  case (activated textDocuments activeTextEditor e p)
  have "timers_ok unactivated"
    by (simp add: timers_ok_def unactivated_def)
  then show ?case
    using timers_ok_cong [of "activate e (Inr p) textDocuments activeTextEditor unactivated" unactivated]
    by simp
next
  case (stepped st ev e)
  then show ?case by (simp add: step_timers_ok)
qed















section \<open>The filter as an invariant\<close>

lemma lintDocument_ineligible: "\<not> eligible doc \<Longrightarrow> lintDocument e doc st = st"
  by (auto simp: lintDocument_def eligible_def)

lemma lintDocument_filter_inv:
  assumes "filter_inv D st" "doc \<in> D"
  shows "filter_inv D (lintDocument e doc st)"
proof (cases "eligible doc")
  case False
  with assms show ?thesis by (simp add: lintDocument_ineligible)
next
  case True
  then have el: "scheme (uri doc) = js ''file''" "languageId doc = js ''python''"
    by (simp_all add: eligible_def)
  show ?thesis
  proof (cases "findLinterPath e (deployedLinterPath st) doc")
    case None
    then have "lintDocument e doc st =
        st\<lparr>diagnosticCollection := (diagnosticCollection st)(uri doc := None)\<rparr>"
      using el by (simp add: lintDocument_def)
    with assms(1) show ?thesis
      by (auto simp: filter_inv_def)
  next
    case (Some linterPath)
    then have "diagnosticCollection (lintDocument e doc st) = diagnosticCollection st"
      "\<exists>x. running (lintDocument e doc st) = running st @ [x] \<and> ex_document x = doc"
      using el by (simp_all add: lintDocument_def statusRunning_def Let_def)
    with assms True show ?thesis
      by (auto simp: filter_inv_def)
  qed
qed

lemma foldl_lintDocument_filter_inv:
  "filter_inv D st \<Longrightarrow> set docs \<subseteq> D \<Longrightarrow>
     filter_inv D (foldl (\<lambda>s doc. lintDocument e doc s) st docs)"
  by (induction docs arbitrary: st) (simp_all add: lintDocument_filter_inv)

lemma filter_inv_cong:
  assumes "diagnosticCollection st' = diagnosticCollection st" "running st' = running st"
    "timers st' = timers st"
  shows "filter_inv D st' = filter_inv D st"
  using assms by (simp add: filter_inv_def)

lemma fire_due_filter_inv:
  "filter_inv D st \<Longrightarrow> \<forall>t \<in> set tms. tm_doc t \<in> D \<Longrightarrow> filter_inv D (fire_due e t tms st)"
proof (induction tms arbitrary: st)
  case Nil
  then show ?case by simp
next
  case (Cons tm tms)
  let ?s0 = "st\<lparr>timers := filter (\<lambda>x. tm_id x \<noteq> tm_id tm) (timers st), fired := fired st @ [tm],
      debounceTimers := (debounceTimers st)(tm_key tm := None)\<rparr>"
  have "filter_inv D ?s0"
    using Cons.prems(1) by (auto simp: filter_inv_def)
  then have "filter_inv D (lintDocument e (tm_doc tm) ?s0)"
    using Cons.prems(2) by (simp add: lintDocument_filter_inv)
  then have "filter_inv D (timerCallback e (tm_key tm) (tm_doc tm)
       (st\<lparr>timers := filter (\<lambda>x. tm_id x \<noteq> tm_id tm) (timers st), fired := fired st @ [tm]\<rparr>))"
    by (simp add: timerCallback_def)
  with Cons show ?case by simp
qed

lemma execCallback_filter_inv:
  assumes "filter_inv D st" "doc \<in> D" "eligible doc"
  shows "filter_inv D (execCallback doc out err st)"
  using assms
  by (auto simp: filter_inv_def execCallback_def statusError_def statusDone_def Let_def)

lemma step_filter_inv:
  assumes "filter_inv D st" "timers_ok st" "event_documents ev \<subseteq> D"
  shows "filter_inv D (step e ev st)"
proof (cases ev)
  case (DidOpen doc)
  then show ?thesis
    using assms by (simp add: onDidOpenTextDocument_def lintDocument_filter_inv)
next
  case (DidSave doc)
  then show ?thesis
    using assms by (simp add: onDidSaveTextDocument_def lintDocument_filter_inv)
next
  case (DidChange doc)
  show ?thesis
  proof (cases "cfg_get (cfg_lintOnChange (configuration e)) False \<and> languageId doc = js ''python''")
    case False
    with DidChange assms(1) show ?thesis by (auto simp: onDidChangeTextDocument_def)
  next
    case True
    then have en: "cfg_get (cfg_lintOnChange (configuration e)) False" "languageId doc = js ''python''"
      by simp_all
    have "diagnosticCollection (onDidChangeTextDocument e doc st) = diagnosticCollection st"
      "running (onDidChangeTextDocument e doc st) = running st"
      using en cancel_frame [of st "uri doc"]
      by (simp_all add: onDidChangeTextDocument_def setTimeout_def Let_def)
    then show ?thesis
      using assms(1,3) unfolding DidChange step.simps filter_inv_def change_effect [OF assms(2) en]
      by auto
  qed
next
  case (DidClose doc)
  have "running (onDidCloseTextDocument doc st) = running st"
    using cancel_frame [of "st\<lparr>diagnosticCollection := (diagnosticCollection st)(uri doc := None)\<rparr>" "uri doc"]
    by (simp add: onDidCloseTextDocument_def Let_def)
  then show ?thesis
    using assms(1) unfolding DidClose step.simps filter_inv_def close_effect [OF assms(2)]
    by auto
next
  case (ActiveEditorChanged editor)
  then show ?thesis
    using assms(1) by (simp add: onDidChangeActiveTextEditor_def filter_inv_def)
next
  case (LintFile editor)
  then show ?thesis
    using assms by (cases editor) (simp_all add: lintFile_def lintDocument_filter_inv)
next
  case (Elapse d)
  have "filter_inv D (st\<lparr>clock := clock st + d\<rparr>)"
    using assms(1) by (simp add: filter_inv_def)
  moreover have "\<forall>t \<in> set (timers st). tm_doc t \<in> D"
    using assms(1) by (simp add: filter_inv_def)
  ultimately show ?thesis
    unfolding Elapse step.simps advance_def by (rule fire_due_filter_inv)
next
  case (ExecDone i out err)
  show ?thesis
  proof (cases "i < length (running st)")
    case False
    with ExecDone assms(1) show ?thesis by (simp add: execDone_def)
  next
    case True
    let ?s0 = "st\<lparr>running := take i (running st) @ drop (Suc i) (running st)\<rparr>"
    have sub: "set (take i (running st) @ drop (Suc i) (running st)) \<subseteq> set (running st)"
      using set_take_subset set_drop_subset by fastforce
    have "filter_inv D ?s0"
      using assms(1) sub by (auto simp: filter_inv_def)
    moreover have "ex_document (running st ! i) \<in> D" "eligible (ex_document (running st ! i))"
      using assms(1) True by (simp_all add: filter_inv_def)
    ultimately show ?thesis
      using True unfolding ExecDone step.simps execDone_def
      by (simp add: execCallback_filter_inv)
  qed
qed

lemma reachable_filter_inv: "reachable D st \<Longrightarrow> filter_inv D st"
proof (induction rule: reachable.induct)
  case (activated textDocuments activeTextEditor e p)
  let ?st1 = "unactivated\<lparr>deployedLinterPath := Some p, diagnosticCollection := Map.empty,
      statusBarItem := \<lparr>sb_text = [], sb_tooltip = [], sb_visible = False\<rparr>\<rparr>"
  have "filter_inv D ?st1"
    by (simp add: filter_inv_def unactivated_def)
  then have "filter_inv D (foldl (\<lambda>s doc. lintDocument e doc s) ?st1 textDocuments)"
    using activated(1) by (rule foldl_lintDocument_filter_inv)
  then show ?case
    by (auto simp: activate_def Let_def filter_inv_def unactivated_def split: option.splits)
next
  case (stepped st ev e)
  then show ?case
    by (simp add: step_filter_inv reachable_timers_ok)
qed

lemma reachable_store_eligible:
  assumes "reachable D st" "inj_on uri D" "d \<in> D" "\<not> eligible d"
  shows "diagnosticCollection st (uri d) = None"
proof (rule ccontr)
  assume "diagnosticCollection st (uri d) \<noteq> None"
  then have "uri d \<in> dom (diagnosticCollection st)"
    by auto
  with reachable_filter_inv [OF assms(1)] obtain d' where "d' \<in> D" "uri d' = uri d" "eligible d'"
    unfolding filter_inv_def by blast
  with assms(2,3,4) show False
    by (auto dest: inj_onD)
qed

section \<open>The claims\<close>

text \<open>
  C1. Parsing the single report line
  \<^verbatim>\<open>src/dev.py:10:4: warning: T023 Attribute 'foo' needs 'description'\<close>
  yields exactly one diagnostic: severity Warning, range starting at 0-based line 9 and
  column 4, code \<open>T023\<close> and message
  \<^verbatim>\<open>T023: Attribute 'foo' needs 'description'\<close>. The parser reads no configuration.
\<close>

theorem parseOutput_example_line:
  "parseOutput (js (''src/dev.py:10:4: warning: T023 Attribute \\'foo\\' needs \\'description'' @ [CHR 0x27])) =
     [\<lparr>diag_range = \<lparr>startLine = 9, startCharacter = 4, endLine = 9, endCharacter = 9999\<rparr>,
       diag_message = js (''T023: Attribute \\'foo\\' needs \\'description'' @ [CHR 0x27]),
       diag_severity = Warning, diag_source = js ''tangolint'', diag_code = js ''T023''\<rparr>]"
  by (simp add: parseOutput_def split_nl_def js_def ISSUE_RE_def re_plus_def re_class_def re_eol_def
      is_dot_def is_digit_def is_upper_def mk_diagnostic_def parseInt10_def digit_val_def toVSCodeSeverity_def)

text \<open>
  C2. The output is the diagnostics of the lines the pattern matches, in order, and the
  pattern matches exactly the lines of the grammar. So a line that does not match the
  grammar contributes nothing: taking such a line out of the input leaves the output
  as it was, and an input with no matching line gives the empty list. \<open>parseOutput\<close>
  is a total function: no input makes it fail.
\<close>

theorem nonmatching_lines_dropped:
  "parseOutput stdout =
     List.map_filter (\<lambda>l. map_option mk_diagnostic (ISSUE_RE l)) (split_nl stdout) \<and>
   (matches_grammar l \<longleftrightarrow> ISSUE_RE l \<noteq> None) \<and>
   (\<not> matches_grammar l \<and> 0x0A \<notin> set l \<longrightarrow>
      parseOutput (a @ 0x0A # l @ 0x0A # b) = parseOutput (a @ 0x0A # b)) \<and>
   ((\<forall>l \<in> set (split_nl stdout). \<not> matches_grammar l) \<longrightarrow> parseOutput stdout = [])"
  using parseOutput_line_removed [of l a b] parseOutput_none [of stdout]
  by (simp add: parseOutput_def parse_lines_map_filter matches_grammar_iff)

theorem nonmatching_lines_dropped_witness:
  "parseOutput (js ''TangoLint report'' @ 0x0A # js ''dev.py:3: warning: T023 no column'' @ 0x0A # js ''1 issue'') = [] \<and>
   \<not> matches_grammar (js ''dev.py:3: warning: T023 no column'') \<and>
   0x0A \<notin> set (js ''dev.py:3: warning: T023 no column'') \<and>
   parseOutput (js ''a.py:1:2: info: G007 long'' @ 0x0A # js ''dev.py:3: warning: T023 no column'' @ 0x0A # []) =
     parseOutput (js ''a.py:1:2: info: G007 long'' @ 0x0A # []) \<and>
   \<not> matches_grammar (js ''TangoLint report'') \<and> \<not> matches_grammar []"
proof -
  have n1: "\<not> matches_grammar (js ''dev.py:3: warning: T023 no column'')"
    unfolding matches_grammar_iff by (simp add: parse_eval)
  have n2: "0x0A \<notin> set (js ''dev.py:3: warning: T023 no column'')"
    by (simp add: js_def)
  have n3: "\<not> matches_grammar (js ''TangoLint report'')"
    unfolding matches_grammar_iff by (simp add: parse_eval)
  have n4: "\<not> matches_grammar (js ''1 issue'')"
    unfolding matches_grammar_iff by (simp add: parse_eval)
  have n5: "\<not> matches_grammar []"
    unfolding matches_grammar_iff by (simp add: parse_eval)
  have sp: "split_nl (js ''TangoLint report'' @ 0x0A # js ''dev.py:3: warning: T023 no column'' @ 0x0A # js ''1 issue'')
     = [js ''TangoLint report'', js ''dev.py:3: warning: T023 no column'', js ''1 issue'']"
    by (simp add: split_nl_def js_def)
  have all: "\<forall>l \<in> set (split_nl (js ''TangoLint report'' @ 0x0A # js ''dev.py:3: warning: T023 no column'' @ 0x0A # js ''1 issue'')). \<not> matches_grammar l"
    unfolding sp using n1 n3 n4 by simp
  show ?thesis
    using nonmatching_lines_dropped [of "js ''TangoLint report'' @ 0x0A # js ''dev.py:3: warning: T023 no column'' @ 0x0A # js ''1 issue''"
        "js ''dev.py:3: warning: T023 no column''" "js ''a.py:1:2: info: G007 long''" "[]"]
      n1 n2 n3 n5 all
    by blast
qed




text \<open>
  C4. The suppression arguments are, for each rule code of the registry in registry
  order, the pair \<open>--disable <code>\<close> when the configuration holds \<open>false\<close> for the rule
  and nothing otherwise (an absent entry counts as enabled): each disabled code occurs
  exactly once, an enabled code never, and the codes keep the order of the registry.
  \<open>disabledArgs\<close> is a function of the configuration alone.
\<close>

theorem disabledArgs_registry_order:
  "disabledArgs e =
     concat (map (\<lambda>code. if rule_disabled (configuration e) code then [js ''--disable'', code] else [])
       ALL_RULE_CODES) \<and>
   getDisabledRules e = filter (rule_disabled (configuration e)) ALL_RULE_CODES \<and>
   subseq (getDisabledRules e) ALL_RULE_CODES \<and>
   (\<forall>code \<in> set ALL_RULE_CODES.
      count_list (disabledArgs e) code = (if rule_disabled (configuration e) code then 1 else 0)) \<and>
   length (disabledArgs e) = 2 * card {code \<in> set ALL_RULE_CODES. rule_disabled (configuration e) code}"
proof -
  let ?P = "rule_disabled (configuration e)"
  have args: "disabledArgs e =
     concat (map (\<lambda>code. if ?P code then [js ''--disable'', code] else []) ALL_RULE_CODES)"
    unfolding disabledArgs_def getDisabledRules_eq by (rule concat_map_filter_if)
  have cnt: "count_list (disabledArgs e) code = (if ?P code then 1 else 0)"
    if "code \<in> set ALL_RULE_CODES" for code
    unfolding args using distinct_ALL_RULE_CODES disable_not_code that by (rule count_pairs)
  have "length (concat (map (\<lambda>code. [d, code]) xs)) = 2 * length xs" for d :: jsstring and xs
    by (induction xs) simp_all
  then have "length (disabledArgs e) = 2 * length (getDisabledRules e)"
    unfolding disabledArgs_def by simp
  also have "length (getDisabledRules e) = card (set (filter ?P ALL_RULE_CODES))"
    unfolding getDisabledRules_eq
    using distinct_ALL_RULE_CODES distinct_card [of "filter ?P ALL_RULE_CODES"]
    by (simp del: set_filter)
  also have "set (filter ?P ALL_RULE_CODES) = {code \<in> set ALL_RULE_CODES. ?P code}"
    by simp
  finally have len: "length (disabledArgs e) = 2 * card {code \<in> set ALL_RULE_CODES. ?P code}" .
  show ?thesis
    using args cnt len by (simp add: getDisabledRules_eq)
qed

theorem disabledArgs_registry_order_witness:
  "disabledArgs \<lparr>configuration = \<lparr>cfg_linterPath = None, cfg_pythonPath = None, cfg_lintOnOpen = None,
       cfg_lintOnSave = None, cfg_lintOnChange = None,
       cfg_rules = [js ''rules.G007'' \<mapsto> False, js ''rules.T024'' \<mapsto> False, js ''rules.T001'' \<mapsto> True]\<rparr>,
     existsSync = (\<lambda>p. False), getWorkspaceFolder = (\<lambda>u. None),
     path_join = (\<lambda>a b. a @ js ''/'' @ b), path_dirname = (\<lambda>p. p),
     pythonExecCommand = None\<rparr> =
     [js ''--disable'', js ''T024'', js ''--disable'', js ''G007''] \<and>
   js ''T024'' \<in> set ALL_RULE_CODES \<and>
   count_list [js ''--disable'', js ''T024'', js ''--disable'', js ''G007''] (js ''T024'') = 1 \<and>
   count_list [js ''--disable'', js ''T024'', js ''--disable'', js ''G007''] (js ''T001'') = 0"
proof -
  let ?e = "\<lparr>configuration = \<lparr>cfg_linterPath = None, cfg_pythonPath = None, cfg_lintOnOpen = None,
       cfg_lintOnSave = None, cfg_lintOnChange = None,
       cfg_rules = [js ''rules.G007'' \<mapsto> False, js ''rules.T024'' \<mapsto> False, js ''rules.T001'' \<mapsto> True]\<rparr>,
     existsSync = (\<lambda>p. False), getWorkspaceFolder = (\<lambda>u. None),
     path_join = (\<lambda>a b. a @ js ''/'' @ b), path_dirname = (\<lambda>p. p),
     pythonExecCommand = None\<rparr>"
  have "disabledArgs ?e =
     concat (map (\<lambda>code. if rule_disabled (configuration ?e) code then [js ''--disable'', code] else [])
       ALL_RULE_CODES)"
    using disabledArgs_registry_order [of ?e] by blast
  also have "\<dots> = [js ''--disable'', js ''T024'', js ''--disable'', js ''G007'']"
    by (simp add: rule_disabled_def ALL_RULE_CODES_def js_def)
  finally show ?thesis
    by (simp add: ALL_RULE_CODES_def js_def)
qed

text \<open>
  C5, as amended. \<open>findLinterPath\<close> returns the first candidate that exists, of the
  configured path, the deployed copy and \<open>tangolint.py\<close> in the root of the document's
  workspace folder, and nothing is merged: the configured path when it exists; else
  the deployed copy when it exists; when neither exists, the workspace-root file if
  the document has a workspace folder and the file exists, and \<open>null\<close> only otherwise.
\<close>

theorem findLinterPath_first_existing:
  "findLinterPath e deployed document =
     List.find (existsSync e) (entry_point_candidates e deployed document) \<and>
   (trim (cfg_get (cfg_linterPath (configuration e)) []) \<noteq> [] \<and>
    existsSync e (trim (cfg_get (cfg_linterPath (configuration e)) [])) \<longrightarrow>
      findLinterPath e deployed document = Some (trim (cfg_get (cfg_linterPath (configuration e)) []))) \<and>
   (\<not> (trim (cfg_get (cfg_linterPath (configuration e)) []) \<noteq> [] \<and>
        existsSync e (trim (cfg_get (cfg_linterPath (configuration e)) []))) \<and>
    deployed = Some p \<and> p \<noteq> [] \<and> existsSync e p \<longrightarrow>
      findLinterPath e deployed document = Some p) \<and>
   (\<not> (trim (cfg_get (cfg_linterPath (configuration e)) []) \<noteq> [] \<and>
        existsSync e (trim (cfg_get (cfg_linterPath (configuration e)) []))) \<and>
    \<not> (\<exists>p. deployed = Some p \<and> p \<noteq> [] \<and> existsSync e p) \<longrightarrow>
      findLinterPath e deployed document =
        (case getWorkspaceFolder e (uri document) of
           None \<Rightarrow> None
         | Some wsFolder \<Rightarrow>
             if existsSync e (path_join e wsFolder (js ''tangolint.py''))
             then Some (path_join e wsFolder (js ''tangolint.py'')) else None))"
  by (auto simp: findLinterPath_def entry_point_candidates_def Let_def split: option.splits)

theorem findLinterPath_first_existing_witness:
  "findLinterPath
     \<lparr>configuration = \<lparr>cfg_linterPath = Some (js '' /opt/lint/tangolint.py ''), cfg_pythonPath = None,
        cfg_lintOnOpen = None, cfg_lintOnSave = None, cfg_lintOnChange = None, cfg_rules = Map.empty\<rparr>,
      existsSync = (\<lambda>p. p = js ''/opt/lint/tangolint.py'' \<or> p = js ''/store/tangolint.py''),
      getWorkspaceFolder = (\<lambda>u. None),
      path_join = (\<lambda>a b. a @ js ''/'' @ b), path_dirname = (\<lambda>p. p),
      pythonExecCommand = None\<rparr>
     (Some (js ''/store/tangolint.py''))
     \<lparr>uri = \<lparr>scheme = js ''file'', fsPath = js ''/w/dev.py''\<rparr>, languageId = js ''python''\<rparr>
   = Some (js ''/opt/lint/tangolint.py'') \<and>
   findLinterPath
     \<lparr>configuration = \<lparr>cfg_linterPath = None, cfg_pythonPath = None,
        cfg_lintOnOpen = None, cfg_lintOnSave = None, cfg_lintOnChange = None, cfg_rules = Map.empty\<rparr>,
      existsSync = (\<lambda>p. p = js ''/store/tangolint.py''),
      getWorkspaceFolder = (\<lambda>u. None),
      path_join = (\<lambda>a b. a @ js ''/'' @ b), path_dirname = (\<lambda>p. p),
      pythonExecCommand = None\<rparr>
     (Some (js ''/store/tangolint.py''))
     \<lparr>uri = \<lparr>scheme = js ''file'', fsPath = js ''/w/dev.py''\<rparr>, languageId = js ''python''\<rparr>
   = Some (js ''/store/tangolint.py'')"
proof -
  let ?doc = "\<lparr>uri = \<lparr>scheme = js ''file'', fsPath = js ''/w/dev.py''\<rparr>, languageId = js ''python''\<rparr>"
  let ?e1 = "\<lparr>configuration = \<lparr>cfg_linterPath = Some (js '' /opt/lint/tangolint.py ''), cfg_pythonPath = None,
        cfg_lintOnOpen = None, cfg_lintOnSave = None, cfg_lintOnChange = None, cfg_rules = Map.empty\<rparr>,
      existsSync = (\<lambda>p. p = js ''/opt/lint/tangolint.py'' \<or> p = js ''/store/tangolint.py''),
      getWorkspaceFolder = (\<lambda>u. None),
      path_join = (\<lambda>a b. a @ js ''/'' @ b), path_dirname = (\<lambda>p. p),
      pythonExecCommand = None\<rparr>"
  let ?e2 = "\<lparr>configuration = \<lparr>cfg_linterPath = None, cfg_pythonPath = None,
        cfg_lintOnOpen = None, cfg_lintOnSave = None, cfg_lintOnChange = None, cfg_rules = Map.empty\<rparr>,
      existsSync = (\<lambda>p. p = js ''/store/tangolint.py''),
      getWorkspaceFolder = (\<lambda>u. None),
      path_join = (\<lambda>a b. a @ js ''/'' @ b), path_dirname = (\<lambda>p. p),
      pythonExecCommand = None\<rparr>"
  have t1: "trim (cfg_get (cfg_linterPath (configuration ?e1)) []) = js ''/opt/lint/tangolint.py''"
    by (simp add: cfg_get_def trim_def js_def is_js_space_def)
  have t2: "trim (cfg_get (cfg_linterPath (configuration ?e2)) []) = []"
    by (simp add: cfg_get_def trim_def)
  have x1: "existsSync ?e1 (js ''/opt/lint/tangolint.py'')" "js ''/opt/lint/tangolint.py'' \<noteq> []"
    by (simp_all add: js_def)
  have x2: "existsSync ?e2 (js ''/store/tangolint.py'')" "js ''/store/tangolint.py'' \<noteq> []"
    by (simp_all add: js_def)
  have "findLinterPath ?e1 (Some (js ''/store/tangolint.py'')) ?doc = Some (js ''/opt/lint/tangolint.py'')"
    using findLinterPath_first_existing [of ?e1 "Some (js ''/store/tangolint.py'')" ?doc "js ''/store/tangolint.py''"]
      x1 unfolding t1 by blast
  moreover have "findLinterPath ?e2 (Some (js ''/store/tangolint.py'')) ?doc = Some (js ''/store/tangolint.py'')"
    using findLinterPath_first_existing [of ?e2 "Some (js ''/store/tangolint.py'')" ?doc "js ''/store/tangolint.py''"]
      x2 unfolding t2 by blast
  ultimately show ?thesis by blast
qed

text \<open>
  C5 as stated fails where neither the configured path nor the deployed copy exists
  and the workspace root holds \<open>tangolint.py\<close>: resolution returns that file, not
  \<open>null\<close>.
\<close>

theorem findLinterPath_workspace_counterexample:
  "trim (cfg_get (cfg_linterPath (configuration
     \<lparr>configuration = \<lparr>cfg_linterPath = None, cfg_pythonPath = None,
        cfg_lintOnOpen = None, cfg_lintOnSave = None, cfg_lintOnChange = None, cfg_rules = Map.empty\<rparr>,
      existsSync = (\<lambda>p. p = js ''/w/tangolint.py''),
      getWorkspaceFolder = (\<lambda>u. Some (js ''/w'')),
      path_join = (\<lambda>a b. a @ js ''/'' @ b), path_dirname = (\<lambda>p. p),
      pythonExecCommand = None\<rparr>)) []) = [] \<and>
   \<not> existsSync
     \<lparr>configuration = \<lparr>cfg_linterPath = None, cfg_pythonPath = None,
        cfg_lintOnOpen = None, cfg_lintOnSave = None, cfg_lintOnChange = None, cfg_rules = Map.empty\<rparr>,
      existsSync = (\<lambda>p. p = js ''/w/tangolint.py''),
      getWorkspaceFolder = (\<lambda>u. Some (js ''/w'')),
      path_join = (\<lambda>a b. a @ js ''/'' @ b), path_dirname = (\<lambda>p. p),
      pythonExecCommand = None\<rparr> (js ''/store/tangolint.py'') \<and>
   findLinterPath
     \<lparr>configuration = \<lparr>cfg_linterPath = None, cfg_pythonPath = None,
        cfg_lintOnOpen = None, cfg_lintOnSave = None, cfg_lintOnChange = None, cfg_rules = Map.empty\<rparr>,
      existsSync = (\<lambda>p. p = js ''/w/tangolint.py''),
      getWorkspaceFolder = (\<lambda>u. Some (js ''/w'')),
      path_join = (\<lambda>a b. a @ js ''/'' @ b), path_dirname = (\<lambda>p. p),
      pythonExecCommand = None\<rparr>
     (Some (js ''/store/tangolint.py''))
     \<lparr>uri = \<lparr>scheme = js ''file'', fsPath = js ''/w/dev.py''\<rparr>, languageId = js ''python''\<rparr>
   = Some (js ''/w/tangolint.py'')"
  by (simp add: findLinterPath_def cfg_get_def trim_def js_def)

text \<open>
  C6. When entry-point resolution returns \<open>null\<close> for a document, the lint run deletes
  the diagnostics stored under the document's URI and stops: no subprocess is
  recorded, the status bar item is as before, nothing is written or shown, and no
  other part of the state changes. Resolution is reached only for a document that
  passed the filter; for any other document the run changes nothing at all, and in a
  reachable state there are no diagnostics stored for such a document, so after the
  run none are stored for the document in either case.
\<close>

theorem unresolved_clears_silently:
  assumes "findLinterPath e (deployedLinterPath st) document = None"
  shows "lintDocument e document st =
           (if eligible document
            then st\<lparr>diagnosticCollection := (diagnosticCollection st)(uri document := None)\<rparr>
            else st) \<and>
         running (lintDocument e document st) = running st \<and>
         statusBarItem (lintDocument e document st) = statusBarItem st \<and>
         errorMessages (lintDocument e document st) = errorMessages st \<and>
         console (lintDocument e document st) = console st \<and>
         (eligible document \<longrightarrow>
            diagnosticCollection (lintDocument e document st) (uri document) = None) \<and>
         (reachable D st \<and> inj_on uri D \<and> document \<in> D \<longrightarrow>
            diagnosticCollection (lintDocument e document st) (uri document) = None)"
proof -
  have l: "lintDocument e document st =
           (if eligible document
            then st\<lparr>diagnosticCollection := (diagnosticCollection st)(uri document := None)\<rparr>
            else st)"
    using assms by (auto simp: lintDocument_def eligible_def)
  have "diagnosticCollection (lintDocument e document st) (uri document) = None"
    if "reachable D st" "inj_on uri D" "document \<in> D"
  proof (cases "eligible document")
    case True
    then show ?thesis by (simp add: l)
  next
    case False
    then show ?thesis
      using reachable_store_eligible [OF that False] by (simp add: l)
  qed
  then show ?thesis
    unfolding l by simp
qed

theorem unresolved_clears_silently_witness:
  "findLinterPath
     \<lparr>configuration = \<lparr>cfg_linterPath = None, cfg_pythonPath = None,
        cfg_lintOnOpen = None, cfg_lintOnSave = None, cfg_lintOnChange = None, cfg_rules = Map.empty\<rparr>,
      existsSync = (\<lambda>p. False), getWorkspaceFolder = (\<lambda>u. Some (js ''/w'')),
      path_join = (\<lambda>a b. a @ js ''/'' @ b), path_dirname = (\<lambda>p. p),
      pythonExecCommand = None\<rparr>
     (Some (js ''/store/tangolint.py''))
     \<lparr>uri = \<lparr>scheme = js ''file'', fsPath = js ''/w/dev.py''\<rparr>, languageId = js ''python''\<rparr> = None \<and>
   eligible \<lparr>uri = \<lparr>scheme = js ''file'', fsPath = js ''/w/dev.py''\<rparr>, languageId = js ''python''\<rparr> \<and>
   lintDocument
     \<lparr>configuration = \<lparr>cfg_linterPath = None, cfg_pythonPath = None,
        cfg_lintOnOpen = None, cfg_lintOnSave = None, cfg_lintOnChange = None, cfg_rules = Map.empty\<rparr>,
      existsSync = (\<lambda>p. False), getWorkspaceFolder = (\<lambda>u. Some (js ''/w'')),
      path_join = (\<lambda>a b. a @ js ''/'' @ b), path_dirname = (\<lambda>p. p),
      pythonExecCommand = None\<rparr>
     \<lparr>uri = \<lparr>scheme = js ''file'', fsPath = js ''/w/dev.py''\<rparr>, languageId = js ''python''\<rparr>
     (unactivated\<lparr>deployedLinterPath := Some (js ''/store/tangolint.py''),
        diagnosticCollection :=
          [\<lparr>scheme = js ''file'', fsPath = js ''/w/dev.py''\<rparr> \<mapsto> parseOutput (js ''dev.py:1:1: error: E1 x'')]\<rparr>)
   = unactivated\<lparr>deployedLinterPath := Some (js ''/store/tangolint.py''),
        diagnosticCollection := Map.empty\<rparr>"
proof -
  let ?e = "\<lparr>configuration = \<lparr>cfg_linterPath = None, cfg_pythonPath = None,
        cfg_lintOnOpen = None, cfg_lintOnSave = None, cfg_lintOnChange = None, cfg_rules = Map.empty\<rparr>,
      existsSync = (\<lambda>p. False), getWorkspaceFolder = (\<lambda>u. Some (js ''/w'')),
      path_join = (\<lambda>a b. a @ js ''/'' @ b), path_dirname = (\<lambda>p. p),
      pythonExecCommand = None\<rparr>"
  let ?doc = "\<lparr>uri = \<lparr>scheme = js ''file'', fsPath = js ''/w/dev.py''\<rparr>, languageId = js ''python''\<rparr>"
  let ?st = "unactivated\<lparr>deployedLinterPath := Some (js ''/store/tangolint.py''),
        diagnosticCollection :=
          [\<lparr>scheme = js ''file'', fsPath = js ''/w/dev.py''\<rparr> \<mapsto> parseOutput (js ''dev.py:1:1: error: E1 x'')]\<rparr>"
  have f: "findLinterPath ?e (deployedLinterPath ?st) ?doc = None"
    by (simp add: findLinterPath_def cfg_get_def trim_def)
  have el: "eligible ?doc"
    by (simp add: eligible_def)
  from unresolved_clears_silently [OF f] el
  have "lintDocument ?e ?doc ?st = ?st\<lparr>diagnosticCollection := (diagnosticCollection ?st)(uri ?doc := None)\<rparr>"
    by presburger
  with f el show ?thesis by simp
qed

text \<open>
  C7, as amended. When the error text of a completed subprocess is not empty after
  trimming white space, the callback sets the error status with the first line of the
  trimmed text in the tooltip, shows the item, and leaves the diagnostic collection as
  it was, whatever the standard output holds.
\<close>

theorem stderr_keeps_diagnostics:
  assumes "trim stderr \<noteq> []"
  shows "execCallback document stdout stderr st =
           statusError (first_line (trim stderr))
             (st\<lparr>console := console st @ [js ''[tangolint] '' @ trim stderr]\<rparr>) \<and>
         diagnosticCollection (execCallback document stdout stderr st) = diagnosticCollection st \<and>
         statusBarItem (execCallback document stdout stderr st) =
           \<lparr>sb_text = js ''$(alert) TangoLint'',
            sb_tooltip = js ''TangoLint: '' @ first_line (trim stderr),
            sb_visible = True\<rparr> \<and>
         running (execCallback document stdout stderr st) = running st \<and>
         (i < length (running st) \<longrightarrow>
            diagnosticCollection (execDone i stdout stderr st) = diagnosticCollection st)"
proof -
  from assms have ne: "stderr \<noteq> []"
    using trim_Nil by auto
  have cb: "execCallback document stdout stderr st' =
           statusError (first_line (trim stderr))
             (st'\<lparr>console := console st' @ [js ''[tangolint] '' @ trim stderr]\<rparr>)" for st' document
    using assms ne by (simp add: execCallback_def)
  show ?thesis
    unfolding cb execDone_def by (simp add: statusError_def)
qed

theorem stderr_keeps_diagnostics_witness:
  "trim (0x0A # js ''ImportError: no module'' @ 0x0A # js ''  at line 3'' @ [0x0A]) \<noteq> [] \<and>
   diagnosticCollection
     (execCallback
        \<lparr>uri = \<lparr>scheme = js ''file'', fsPath = js ''/w/dev.py''\<rparr>, languageId = js ''python''\<rparr>
        (js ''dev.py:2:1: warning: T020 doc'')
        (0x0A # js ''ImportError: no module'' @ 0x0A # js ''  at line 3'' @ [0x0A])
        (unactivated\<lparr>diagnosticCollection :=
          [\<lparr>scheme = js ''file'', fsPath = js ''/w/dev.py''\<rparr> \<mapsto> parseOutput (js ''dev.py:1:1: error: E1 x'')]\<rparr>))
   = [\<lparr>scheme = js ''file'', fsPath = js ''/w/dev.py''\<rparr> \<mapsto> parseOutput (js ''dev.py:1:1: error: E1 x'')] \<and>
   statusBarItem
     (execCallback
        \<lparr>uri = \<lparr>scheme = js ''file'', fsPath = js ''/w/dev.py''\<rparr>, languageId = js ''python''\<rparr>
        (js ''dev.py:2:1: warning: T020 doc'')
        (0x0A # js ''ImportError: no module'' @ 0x0A # js ''  at line 3'' @ [0x0A])
        (unactivated\<lparr>diagnosticCollection :=
          [\<lparr>scheme = js ''file'', fsPath = js ''/w/dev.py''\<rparr> \<mapsto> parseOutput (js ''dev.py:1:1: error: E1 x'')]\<rparr>))
   = \<lparr>sb_text = js ''$(alert) TangoLint'',
      sb_tooltip = js ''TangoLint: '' @ js ''ImportError: no module'', sb_visible = True\<rparr>"
proof -
  let ?stderr = "0x0A # js ''ImportError: no module'' @ 0x0A # js ''  at line 3'' @ [0x0A]"
  let ?doc = "\<lparr>uri = \<lparr>scheme = js ''file'', fsPath = js ''/w/dev.py''\<rparr>, languageId = js ''python''\<rparr>"
  let ?st = "unactivated\<lparr>diagnosticCollection :=
          [\<lparr>scheme = js ''file'', fsPath = js ''/w/dev.py''\<rparr> \<mapsto> parseOutput (js ''dev.py:1:1: error: E1 x'')]\<rparr>"
  have t: "trim ?stderr = js ''ImportError: no module'' @ 0x0A # js ''  at line 3''"
    by (simp add: trim_def js_def is_js_space_def)
  have ne: "trim ?stderr \<noteq> []"
    unfolding t by (simp add: js_def)
  have fl: "first_line (trim ?stderr) = js ''ImportError: no module''"
    unfolding t by (simp add: first_line_def split_nl_def js_def)
  have dc: "diagnosticCollection ?st =
      [\<lparr>scheme = js ''file'', fsPath = js ''/w/dev.py''\<rparr> \<mapsto> parseOutput (js ''dev.py:1:1: error: E1 x'')]"
    by simp
  note k = stderr_keeps_diagnostics [OF ne, of ?doc "js ''dev.py:2:1: warning: T020 doc''" ?st 0]
  from k have "diagnosticCollection (execCallback ?doc (js ''dev.py:2:1: warning: T020 doc'') ?stderr ?st) =
      diagnosticCollection ?st"
    by (rule conjunct1 [OF conjunct2])
  moreover from k have "statusBarItem (execCallback ?doc (js ''dev.py:2:1: warning: T020 doc'') ?stderr ?st) =
      \<lparr>sb_text = js ''$(alert) TangoLint'',
       sb_tooltip = js ''TangoLint: '' @ first_line (trim ?stderr), sb_visible = True\<rparr>"
    by (rule conjunct1 [OF conjunct2 [OF conjunct2]])
  ultimately show ?thesis
    using ne unfolding fl dc by (intro conjI)
qed

text \<open>
  C7 as stated fails for an error text that is not empty but blank: with a single line
  feed on the error stream the callback replaces the stored diagnostics with those
  parsed from the standard output and sets the done status.
\<close>

theorem stderr_blank_counterexample:
  "diagnosticCollection
     (unactivated\<lparr>diagnosticCollection :=
        [\<lparr>scheme = js ''file'', fsPath = js ''/w/dev.py''\<rparr> \<mapsto>
           [\<lparr>diag_range = \<lparr>startLine = 0, startCharacter = 1, endLine = 0, endCharacter = 9999\<rparr>,
             diag_message = js ''E1: x'', diag_severity = Error,
             diag_source = js ''tangolint'', diag_code = js ''E1''\<rparr>]]\<rparr>)
     \<lparr>scheme = js ''file'', fsPath = js ''/w/dev.py''\<rparr> =
     Some [\<lparr>diag_range = \<lparr>startLine = 0, startCharacter = 1, endLine = 0, endCharacter = 9999\<rparr>,
             diag_message = js ''E1: x'', diag_severity = Error,
             diag_source = js ''tangolint'', diag_code = js ''E1''\<rparr>] \<and>
   diagnosticCollection
     (execCallback
        \<lparr>uri = \<lparr>scheme = js ''file'', fsPath = js ''/w/dev.py''\<rparr>, languageId = js ''python''\<rparr>
        [] [0x0A]
        (unactivated\<lparr>diagnosticCollection :=
          [\<lparr>scheme = js ''file'', fsPath = js ''/w/dev.py''\<rparr> \<mapsto>
           [\<lparr>diag_range = \<lparr>startLine = 0, startCharacter = 1, endLine = 0, endCharacter = 9999\<rparr>,
             diag_message = js ''E1: x'', diag_severity = Error,
             diag_source = js ''tangolint'', diag_code = js ''E1''\<rparr>]]\<rparr>))
     \<lparr>scheme = js ''file'', fsPath = js ''/w/dev.py''\<rparr> = Some [] \<and>
   sb_text (statusBarItem
     (execCallback
        \<lparr>uri = \<lparr>scheme = js ''file'', fsPath = js ''/w/dev.py''\<rparr>, languageId = js ''python''\<rparr>
        [] [0x0A]
        (unactivated\<lparr>diagnosticCollection :=
          [\<lparr>scheme = js ''file'', fsPath = js ''/w/dev.py''\<rparr> \<mapsto>
           [\<lparr>diag_range = \<lparr>startLine = 0, startCharacter = 1, endLine = 0, endCharacter = 9999\<rparr>,
             diag_message = js ''E1: x'', diag_severity = Error,
             diag_source = js ''tangolint'', diag_code = js ''E1''\<rparr>]]\<rparr>))) = js ''$(check) TangoLint''"
  by (simp add: execCallback_def trim_def is_js_space_def statusDone_def unactivated_def parse_eval)




text \<open>
  C9. For a document that is not a file or not of the target language, \<open>lintDocument\<close>
  returns at once with the state unchanged, so the open, save and manual triggers and
  the start-up loop do nothing for it; the change trigger launches nothing and stores
  nothing, and neither does its timer when it fires. Consequently, in every reachable
  state every subprocess in flight is for an eligible document and every entry of the
  diagnostic collection is under the URI of an eligible document; where URIs identify
  the documents, every document with an entry is eligible.
\<close>

theorem ineligible_documents_ignored:
  "(\<not> eligible doc \<longrightarrow>
      lintDocument e doc st = st \<and>
      step e (DidOpen doc) st = st \<and>
      step e (DidSave doc) st = st \<and>
      step e (LintFile (Some doc)) st = st \<and>
      running (step e (DidChange doc) st) = running st \<and>
      diagnosticCollection (step e (DidChange doc) st) = diagnosticCollection st \<and>
      statusBarItem (step e (DidChange doc) st) = statusBarItem st \<and>
      timerCallback e (uri doc) doc st = st\<lparr>debounceTimers := (debounceTimers st)(uri doc := None)\<rparr> \<and>
      foldl (\<lambda>s doc. lintDocument e doc s) st [doc] = st) \<and>
   (reachable D st \<longrightarrow>
      (\<forall>x \<in> set (running st). eligible (ex_document x)) \<and>
      (\<forall>u \<in> dom (diagnosticCollection st). \<exists>d \<in> D. uri d = u \<and> eligible d) \<and>
      (inj_on uri D \<longrightarrow> (\<forall>d \<in> D. uri d \<in> dom (diagnosticCollection st) \<longrightarrow> eligible d)))"
proof -
  have a: "lintDocument e doc st' = st'" if "\<not> eligible doc" for st'
    using that by (rule lintDocument_ineligible)
  have ch: "running (onDidChangeTextDocument e doc st) = running st \<and>
      diagnosticCollection (onDidChangeTextDocument e doc st) = diagnosticCollection st \<and>
      statusBarItem (onDidChangeTextDocument e doc st) = statusBarItem st"
    by (simp add: onDidChangeTextDocument_def setTimeout_def clearTimeout_def Let_def
        split: option.splits)
  have b: "(\<forall>x \<in> set (running st). eligible (ex_document x)) \<and>
      (\<forall>u \<in> dom (diagnosticCollection st). \<exists>d \<in> D. uri d = u \<and> eligible d) \<and>
      (inj_on uri D \<longrightarrow> (\<forall>d \<in> D. uri d \<in> dom (diagnosticCollection st) \<longrightarrow> eligible d))"
    if "reachable D st"
  proof -
    from reachable_filter_inv [OF that]
    have r: "\<forall>x \<in> set (running st). eligible (ex_document x)"
      and s: "\<forall>u \<in> dom (diagnosticCollection st). \<exists>d \<in> D. uri d = u \<and> eligible d"
      by (simp_all add: filter_inv_def)
    have "eligible d" if "inj_on uri D" "d \<in> D" "uri d \<in> dom (diagnosticCollection st)" for d
    proof -
      from s that(3) obtain d' where "d' \<in> D" "uri d' = uri d" "eligible d'"
        by blast
      with that(1,2) show ?thesis by (auto dest: inj_onD)
    qed
    with r s show ?thesis by blast
  qed
  show ?thesis
    using a b ch
    by (simp add: onDidOpenTextDocument_def onDidSaveTextDocument_def lintFile_def timerCallback_def)
qed

theorem ineligible_documents_ignored_witness:
  "\<not> eligible \<lparr>uri = \<lparr>scheme = js ''untitled'', fsPath = js ''Untitled-1''\<rparr>, languageId = js ''python''\<rparr> \<and>
   lintDocument
     \<lparr>configuration = \<lparr>cfg_linterPath = None, cfg_pythonPath = None,
        cfg_lintOnOpen = None, cfg_lintOnSave = None, cfg_lintOnChange = None,
        cfg_rules = Map.empty\<rparr>,
      existsSync = (\<lambda>p. True), getWorkspaceFolder = (\<lambda>u. None),
      path_join = (\<lambda>a b. a @ js ''/'' @ b), path_dirname = (\<lambda>p. p),
      pythonExecCommand = None\<rparr>
     \<lparr>uri = \<lparr>scheme = js ''untitled'', fsPath = js ''Untitled-1''\<rparr>, languageId = js ''python''\<rparr>
     unactivated = unactivated \<and>
   reachable
     {\<lparr>uri = \<lparr>scheme = js ''file'', fsPath = js ''/w/dev.py''\<rparr>, languageId = js ''python''\<rparr>,
      \<lparr>uri = \<lparr>scheme = js ''untitled'', fsPath = js ''Untitled-1''\<rparr>, languageId = js ''python''\<rparr>}
     (step
        \<lparr>configuration = \<lparr>cfg_linterPath = None, cfg_pythonPath = None,
           cfg_lintOnOpen = None, cfg_lintOnSave = None, cfg_lintOnChange = None,
           cfg_rules = Map.empty\<rparr>,
         existsSync = (\<lambda>p. True), getWorkspaceFolder = (\<lambda>u. None),
         path_join = (\<lambda>a b. a @ js ''/'' @ b), path_dirname = (\<lambda>p. p),
         pythonExecCommand = None\<rparr>
        (DidOpen \<lparr>uri = \<lparr>scheme = js ''untitled'', fsPath = js ''Untitled-1''\<rparr>, languageId = js ''python''\<rparr>)
        (activate
           \<lparr>configuration = \<lparr>cfg_linterPath = None, cfg_pythonPath = None,
              cfg_lintOnOpen = None, cfg_lintOnSave = None, cfg_lintOnChange = None,
              cfg_rules = Map.empty\<rparr>,
            existsSync = (\<lambda>p. True), getWorkspaceFolder = (\<lambda>u. None),
            path_join = (\<lambda>a b. a @ js ''/'' @ b), path_dirname = (\<lambda>p. p),
            pythonExecCommand = None\<rparr>
           (Inr (js ''/store/tangolint.py''))
           [\<lparr>uri = \<lparr>scheme = js ''file'', fsPath = js ''/w/dev.py''\<rparr>, languageId = js ''python''\<rparr>,
            \<lparr>uri = \<lparr>scheme = js ''untitled'', fsPath = js ''Untitled-1''\<rparr>, languageId = js ''python''\<rparr>]
           None unactivated)) \<and>
   list_all (\<lambda>x. eligible (ex_document x))
     (running
       (step
        \<lparr>configuration = \<lparr>cfg_linterPath = None, cfg_pythonPath = None,
           cfg_lintOnOpen = None, cfg_lintOnSave = None, cfg_lintOnChange = None,
           cfg_rules = Map.empty\<rparr>,
         existsSync = (\<lambda>p. True), getWorkspaceFolder = (\<lambda>u. None),
         path_join = (\<lambda>a b. a @ js ''/'' @ b), path_dirname = (\<lambda>p. p),
         pythonExecCommand = None\<rparr>
        (DidOpen \<lparr>uri = \<lparr>scheme = js ''untitled'', fsPath = js ''Untitled-1''\<rparr>, languageId = js ''python''\<rparr>)
        (activate
           \<lparr>configuration = \<lparr>cfg_linterPath = None, cfg_pythonPath = None,
              cfg_lintOnOpen = None, cfg_lintOnSave = None, cfg_lintOnChange = None,
              cfg_rules = Map.empty\<rparr>,
            existsSync = (\<lambda>p. True), getWorkspaceFolder = (\<lambda>u. None),
            path_join = (\<lambda>a b. a @ js ''/'' @ b), path_dirname = (\<lambda>p. p),
            pythonExecCommand = None\<rparr>
           (Inr (js ''/store/tangolint.py''))
           [\<lparr>uri = \<lparr>scheme = js ''file'', fsPath = js ''/w/dev.py''\<rparr>, languageId = js ''python''\<rparr>,
            \<lparr>uri = \<lparr>scheme = js ''untitled'', fsPath = js ''Untitled-1''\<rparr>, languageId = js ''python''\<rparr>]
           None unactivated))) \<and>
   map ex_document
     (running
       (step
        \<lparr>configuration = \<lparr>cfg_linterPath = None, cfg_pythonPath = None,
           cfg_lintOnOpen = None, cfg_lintOnSave = None, cfg_lintOnChange = None,
           cfg_rules = Map.empty\<rparr>,
         existsSync = (\<lambda>p. True), getWorkspaceFolder = (\<lambda>u. None),
         path_join = (\<lambda>a b. a @ js ''/'' @ b), path_dirname = (\<lambda>p. p),
         pythonExecCommand = None\<rparr>
        (DidOpen \<lparr>uri = \<lparr>scheme = js ''untitled'', fsPath = js ''Untitled-1''\<rparr>, languageId = js ''python''\<rparr>)
        (activate
           \<lparr>configuration = \<lparr>cfg_linterPath = None, cfg_pythonPath = None,
              cfg_lintOnOpen = None, cfg_lintOnSave = None, cfg_lintOnChange = None,
              cfg_rules = Map.empty\<rparr>,
            existsSync = (\<lambda>p. True), getWorkspaceFolder = (\<lambda>u. None),
            path_join = (\<lambda>a b. a @ js ''/'' @ b), path_dirname = (\<lambda>p. p),
            pythonExecCommand = None\<rparr>
           (Inr (js ''/store/tangolint.py''))
           [\<lparr>uri = \<lparr>scheme = js ''file'', fsPath = js ''/w/dev.py''\<rparr>, languageId = js ''python''\<rparr>,
            \<lparr>uri = \<lparr>scheme = js ''untitled'', fsPath = js ''Untitled-1''\<rparr>, languageId = js ''python''\<rparr>]
           None unactivated))) =
     [\<lparr>uri = \<lparr>scheme = js ''file'', fsPath = js ''/w/dev.py''\<rparr>, languageId = js ''python''\<rparr>]"
proof -
  let ?e = "\<lparr>configuration = \<lparr>cfg_linterPath = None, cfg_pythonPath = None,
        cfg_lintOnOpen = None, cfg_lintOnSave = None, cfg_lintOnChange = None,
        cfg_rules = Map.empty\<rparr>,
      existsSync = (\<lambda>p. True), getWorkspaceFolder = (\<lambda>u. None),
      path_join = (\<lambda>a b. a @ js ''/'' @ b), path_dirname = (\<lambda>p. p),
      pythonExecCommand = None\<rparr>"
  let ?f = "\<lparr>uri = \<lparr>scheme = js ''file'', fsPath = js ''/w/dev.py''\<rparr>, languageId = js ''python''\<rparr>"
  let ?u = "\<lparr>uri = \<lparr>scheme = js ''untitled'', fsPath = js ''Untitled-1''\<rparr>, languageId = js ''python''\<rparr>"
  let ?st = "step ?e (DidOpen ?u) (activate ?e (Inr (js ''/store/tangolint.py'')) [?f, ?u] None unactivated)"
  have ne: "\<not> eligible ?u"
    by (simp add: eligible_def js_def)
  have r: "reachable {?f, ?u} ?st"
    by (rule reachable.stepped, rule reachable.activated) simp_all
  note k1 = ineligible_documents_ignored [of ?u ?e ?st "{?f, ?u}"]
  from ineligible_documents_ignored [of ?u ?e unactivated "{}"] ne
  have a: "lintDocument ?e ?u unactivated = unactivated"
    by blast
  from k1 r have "\<forall>x \<in> set (running ?st). eligible (ex_document x)"
    by blast
  then have b: "list_all (\<lambda>x. eligible (ex_document x)) (running ?st)"
    by (simp add: list_all_iff)
  note k2 = ineligible_documents_ignored [of ?u ?e "activate ?e (Inr (js ''/store/tangolint.py'')) [?f, ?u] None unactivated" "{}"]
  from k2 ne have c: "?st = activate ?e (Inr (js ''/store/tangolint.py'')) [?f, ?u] None unactivated"
    by blast
  have d: "map ex_document (running (activate ?e (Inr (js ''/store/tangolint.py'')) [?f, ?u] None unactivated)) = [?f]"
    by (simp add: activate_def cfg_get_def lintDocument_def findLinterPath_def trim_def js_def
        statusRunning_def unactivated_def Let_def)
  from ne a r b show ?thesis
    unfolding c d by (intro conjI) simp_all
qed

text \<open>
  C10. A matching report line whose line field is 0 gives a diagnostic on 0-based
  line 0, not line -1, and no diagnostic of \<open>parseOutput\<close> has a negative line number.
\<close>

theorem line_number_clamped_at_zero:
  "(ISSUE_RE line = Some m \<and> parseInt10 (m_lineStr m) = 0 \<longrightarrow>
      parseOutput line = [mk_diagnostic m] \<and>
      startLine (diag_range (mk_diagnostic m)) = 0 \<and>
      endLine (diag_range (mk_diagnostic m)) = 0) \<and>
   (\<forall>d \<in> set (parseOutput stdout).
      0 \<le> startLine (diag_range d) \<and> 0 \<le> endLine (diag_range d))"
proof -
  have "0 \<le> startLine (diag_range d) \<and> 0 \<le> endLine (diag_range d)"
    if "d \<in> set (parseOutput stdout)" for d
  proof -
    from parseOutput_memD [OF that] obtain m' where "d = mk_diagnostic m'"
      by blast
    then show ?thesis by (simp add: mk_diagnostic_def Let_def)
  qed
  moreover have "parseOutput line = [mk_diagnostic m]" if "ISSUE_RE line = Some m"
    using that by (rule parseOutput_single)
  moreover have "startLine (diag_range (mk_diagnostic m)) = 0 \<and>
      endLine (diag_range (mk_diagnostic m)) = 0" if "parseInt10 (m_lineStr m) = 0"
    using that by (simp add: mk_diagnostic_def Let_def)
  ultimately show ?thesis by blast
qed

theorem line_number_clamped_at_zero_witness:
  "ISSUE_RE (js ''a.py:0:5: info: G7 y'') =
     Some \<lparr>m_path = js ''a.py'', m_lineStr = js ''0'', m_colStr = js ''5'',
           m_severity = js ''info'', m_code = js ''G7'', m_message = js ''y''\<rparr> \<and>
   parseInt10 (js ''0'') = 0 \<and>
   parseOutput (js ''a.py:0:5: info: G7 y'') =
     [\<lparr>diag_range = \<lparr>startLine = 0, startCharacter = 5, endLine = 0, endCharacter = 9999\<rparr>,
       diag_message = js ''G7: y'', diag_severity = Information,
       diag_source = js ''tangolint'', diag_code = js ''G7''\<rparr>] \<and>
   list_all (\<lambda>d. 0 \<le> startLine (diag_range d)) (parseOutput (js ''a.py:0:5: info: G7 y''))"
proof -
  have m: "ISSUE_RE (js ''a.py:0:5: info: G7 y'') =
     Some \<lparr>m_path = js ''a.py'', m_lineStr = js ''0'', m_colStr = js ''5'',
           m_severity = js ''info'', m_code = js ''G7'', m_message = js ''y''\<rparr>"
    by (simp add: parse_eval)
  have z: "parseInt10 (js ''0'') = 0"
    by (simp add: parse_eval)
  have k: "mk_diagnostic \<lparr>m_path = js ''a.py'', m_lineStr = js ''0'', m_colStr = js ''5'',
           m_severity = js ''info'', m_code = js ''G7'', m_message = js ''y''\<rparr> =
     \<lparr>diag_range = \<lparr>startLine = 0, startCharacter = 5, endLine = 0, endCharacter = 9999\<rparr>,
       diag_message = js ''G7: y'', diag_severity = Information,
       diag_source = js ''tangolint'', diag_code = js ''G7''\<rparr>"
    by (simp add: parse_eval)
  show ?thesis
    using line_number_clamped_at_zero [of "js ''a.py:0:5: info: G7 y''"
        "\<lparr>m_path = js ''a.py'', m_lineStr = js ''0'', m_colStr = js ''5'',
           m_severity = js ''info'', m_code = js ''G7'', m_message = js ''y''\<rparr>"
        "js ''a.py:0:5: info: G7 y''"] m z k
    by (simp add: list_all_iff)
qed

end
